theory Spec2Isabelle
  imports Main "HOL-Library.Log_Nat"
begin

section \<open>Numbers and text as Python has them\<close>

subsection \<open>Binary64 floating point\<close>

text \<open>
  The gaze coordinates are \<^verbatim>\<open>numpy.float64\<close> values. A finite double is a sign bit and a
  non-negative magnitude; the sign bit is kept apart because \<^verbatim>\<open>-0.0\<close> prints differently
  from \<^verbatim>\<open>0.0\<close>. Every arithmetic operation computes the exact rational result and rounds it
  to 53 significant bits, ties to even. Infinities, NaN and the limits of the exponent are
  left out: every quantity of the program lies between \<open>2\<^sup>-\<^sup>8\<close> and \<open>2\<^sup>1\<^sup>0\<close> or is zero.
\<close>

datatype float64 = Float64 (sign_bit: bool) (magnitude: rat)

definition fval :: "float64 \<Rightarrow> rat" where
  "fval f = (if sign_bit f then - magnitude f else magnitude f)"

definition pow2 :: "int \<Rightarrow> rat" where
  "pow2 k = (if 0 \<le> k then 2 ^ nat k else 1 / 2 ^ nat (- k))"

text \<open>\<open>ilog2 q\<close> is the binary exponent of a positive rational: \<open>2\<^sup>e \<le> q < 2\<^sup>e\<^sup>+\<^sup>1\<close>.\<close>

definition ilog2 :: "rat \<Rightarrow> int" where
  "ilog2 q = (if 1 \<le> q then int (floorlog 2 (nat \<lfloor>q\<rfloor>)) - 1
              else - int (floorlog 2 (nat (\<lceil>1 / q\<rceil> - 1))))"

definition round_half_even :: "rat \<Rightarrow> int" where
  "round_half_even q =
     (let f = \<lfloor>q\<rfloor>; d = q - of_int f
      in if d < 1 / 2 then f
         else if 1 / 2 < d then f + 1
         else if even f then f else f + 1)"

definition round_mag :: "rat \<Rightarrow> rat" where
  "round_mag q =
     (if q = 0 then 0
      else (let e = ilog2 q
            in of_int (round_half_even (q * pow2 (52 - e))) * pow2 (e - 52)))"

text \<open>Conversion of a Python \<^verbatim>\<open>int\<close> to a double.\<close>

definition float_of_int :: "int \<Rightarrow> float64" where
  "float_of_int n = Float64 (n < 0) (round_mag (of_int \<bar>n\<bar>))"

definition fneg :: "float64 \<Rightarrow> float64" where
  "fneg a = Float64 (\<not> sign_bit a) (magnitude a)"

text \<open>An exact sum of zero is \<^verbatim>\<open>+0.0\<close> unless both operands are negative zeros.\<close>

definition fadd :: "float64 \<Rightarrow> float64 \<Rightarrow> float64" where
  "fadd a b =
     (let r = fval a + fval b
      in if r = 0 then Float64 (sign_bit a \<and> sign_bit b) 0
         else Float64 (r < 0) (round_mag (\<bar>r\<bar>)))"

definition fsub :: "float64 \<Rightarrow> float64 \<Rightarrow> float64" where
  "fsub a b = fadd a (fneg b)"

definition fmul :: "float64 \<Rightarrow> float64 \<Rightarrow> float64" where
  "fmul a b = Float64 (sign_bit a \<noteq> sign_bit b) (round_mag (magnitude a * magnitude b))"

definition fdiv :: "float64 \<Rightarrow> float64 \<Rightarrow> float64" where
  "fdiv a b = Float64 (sign_bit a \<noteq> sign_bit b) (round_mag (magnitude a / magnitude b))"

text \<open>
  \<^verbatim>\<open>numpy.interp(x, [x0, x1], [y0, y1])\<close> for two sample points, as numpy's
  \<^verbatim>\<open>arr_interp\<close> computes it: beyond the last sample \<^verbatim>\<open>fp[-1]\<close>, before the first
  \<^verbatim>\<open>fp[0]\<close>, on a sample its value, and between the samples
  \<^verbatim>\<open>slope*(x - xp[0]) + fp[0]\<close> with \<^verbatim>\<open>slope = (fp[1] - fp[0]) / (xp[1] - xp[0])\<close>,
  each operation rounded on its own.
\<close>

definition np_interp :: "float64 \<Rightarrow> float64 \<times> float64 \<Rightarrow> float64 \<times> float64 \<Rightarrow> float64" where
  "np_interp x xp fp =
     (case (xp, fp) of ((x0, x1), (y0, y1)) \<Rightarrow>
        if fval x1 < fval x then y1
        else if fval x < fval x0 then y0
        else if fval x1 \<le> fval x then y1
        else if fval x0 = fval x then y0
        else fadd (fmul (fdiv (fsub y1 y0) (fsub x1 x0)) (fsub x x0)) y0)"

subsection \<open>Text\<close>

definition digit_char :: "nat \<Rightarrow> char" where
  "digit_char n = ''0123456789'' ! (n mod 10)"

fun digits10 :: "nat \<Rightarrow> string" where
  "digits10 n = (if n < 10 then [digit_char n] else digits10 (n div 10) @ [digit_char (n mod 10)])"

declare digits10.simps [simp del]

text \<open>\<^verbatim>\<open>str(i)\<close>, also what an f-string prints for an \<^verbatim>\<open>int\<close>.\<close>

definition str_int :: "int \<Rightarrow> string" where
  "str_int i = (if i < 0 then ''-'' @ digits10 (nat (- i)) else digits10 (nat i))"

text \<open>
  \<^verbatim>\<open>"{:.2f}".format(v)\<close>: the exact value of the double rounded to hundredths, ties to
  even, with a minus sign whenever the sign bit is set (so \<^verbatim>\<open>-0.0\<close> prints as
  \<^verbatim>\<open>-0.00\<close>).
\<close>

definition format_2f :: "float64 \<Rightarrow> string" where
  "format_2f v =
     (let n = nat (round_half_even (magnitude v * 100))
      in (if sign_bit v then ''-'' else []) @ digits10 (n div 100) @ ''.''
         @ [digit_char (n mod 100 div 10), digit_char (n mod 10)])"

section \<open>Communication: the serial transport\<close>

text \<open>
  What the program does to the outside world is kept as a trace, oldest effect first:
  console output, closing a port, an attempt to open one (port, baud rate, read timeout),
  \<^verbatim>\<open>time.sleep\<close>, and bytes written to the open port.
\<close>

datatype effect =
    Print string
  | SerialClose string
  | SerialOpen string int int
  | Sleep nat
  | SerialWrite string

record serial =
  ser_port :: string
  ser_baudrate :: int
  is_open :: bool

record communication =
  baudrate :: int
  ser :: "serial option"
  port :: "string option"
  trace :: "effect list"

definition Communication_init :: "int \<Rightarrow> communication" where
  "Communication_init b = \<lparr>baudrate = b, ser = None, port = None, trace = []\<rparr>"

text \<open>\<^verbatim>\<open>self.ser and self.ser.is_open\<close>\<close>

definition ser_is_open :: "communication \<Rightarrow> bool" where
  "ser_is_open c = (case ser c of None \<Rightarrow> False | Some sp \<Rightarrow> is_open sp)"

definition log_effect :: "effect \<Rightarrow> communication \<Rightarrow> communication" where
  "log_effect e c = c\<lparr>trace := trace c @ [e]\<rparr>"

definition close_if_open :: "communication \<Rightarrow> communication" where
  "close_if_open c =
     (case ser c of
        None \<Rightarrow> c
      | Some sp \<Rightarrow>
          if is_open sp
          then log_effect (SerialClose (ser_port sp)) (c\<lparr>ser := Some (sp\<lparr>is_open := False\<rparr>)\<rparr>)
          else c)"

text \<open>
  \<open>connect c port_name outcome\<close>: \<open>outcome\<close> is what \<^verbatim>\<open>serial.Serial(...)\<close> does for
  this call, \<open>None\<close> when the port opens and \<open>Some msg\<close> when it raises an exception whose
  text is \<open>msg\<close>. The result is the new transport and the returned pair.
\<close>

definition connect :: "communication \<Rightarrow> string \<Rightarrow> string option \<Rightarrow> communication \<times> bool \<times> string" where
  "connect c port_name outcome =
     (let c1 = close_if_open c;
          c2 = log_effect (SerialOpen port_name (baudrate c1) 1) c1
      in case outcome of
           None \<Rightarrow>
             (log_effect (Sleep 2)
                (c2\<lparr>ser := Some \<lparr>ser_port = port_name, ser_baudrate = baudrate c2, is_open = True\<rparr>\<rparr>)
                \<lparr>port := Some port_name\<rparr>,
              True, port_name @ ''@'' @ str_int (baudrate c2))
         | Some msg \<Rightarrow> (c2\<lparr>ser := None\<rparr>, False, msg))"

text \<open>The arrow U+2192 that \<^verbatim>\<open>send\<close> prints before each command, in UTF-8.\<close>

definition arrow :: string where
  "arrow = [CHR 0xE2, CHR 0x86, CHR 0x92]"

definition send :: "communication \<Rightarrow> string \<Rightarrow> communication" where
  "send c cmd =
     (let c1 = log_effect (Print (arrow @ '' '' @ cmd)) c
      in if ser_is_open c then log_effect (SerialWrite (cmd @ [CHR 0x0A])) c1 else c1)"

section \<open>EyeMech: the command encoder\<close>

text \<open>The \<^verbatim>\<open>EyeMech\<close> object holds the very \<^verbatim>\<open>Communication\<close> object of the interface.\<close>

definition move_eye :: "communication \<Rightarrow> float64 \<Rightarrow> float64 \<Rightarrow> communication" where
  "move_eye c x y = send c (''EYE '' @ format_2f x @ '' '' @ format_2f y)"

definition control_lid :: "communication \<Rightarrow> int \<Rightarrow> communication" where
  "control_lid c delta = send c (''LID '' @ str_int delta)"

definition blink :: "communication \<Rightarrow> communication" where
  "blink c = send c ''BLINK''"

section \<open>Interface: the interaction surface\<close>

text \<open>
  Clock readings (\<^verbatim>\<open>time.time()\<close>) are inputs of the drag handler. They are doubles and
  are written as the rational numbers they denote; \<^verbatim>\<open>now - self.last_send_time\<close> is taken as
  the exact difference, which the floating-point difference is for \<^verbatim>\<open>last_send_time = 0\<close>
  and for two readings within a factor of two of each other. The literal \<^verbatim>\<open>0.01\<close> is the
  double nearest to one hundredth. \<open>click_dot\<close> is the centre of the blue marker on the
  canvas.
\<close>

record interface =
  comm :: communication
  dragging :: bool
  last_send_time :: rat
  send_interval :: rat
  status_var :: string
  canvas_size :: int
  margin :: int
  radius :: int
  center_x :: int
  center_y :: int
  click_dot :: "(int \<times> int) option"

text \<open>\<^verbatim>\<open>__init__\<close> followed by \<^verbatim>\<open>_build_ui\<close>.\<close>

definition Interface_init :: interface where
  "Interface_init =
     (let cs = 400; m = 20
      in \<lparr>comm = Communication_init 9600, dragging = False, last_send_time = 0,
          send_interval = round_mag (1 / 100), status_var = ''Not Connected'',
          canvas_size = cs, margin = m, radius = cs div 2 - m,
          center_x = cs div 2, center_y = cs div 2, click_dot = None\<rparr>)"

definition on_connect :: "interface \<Rightarrow> string \<Rightarrow> string option \<Rightarrow> interface" where
  "on_connect s port_name outcome =
     (if port_name = [] then s
      else (case connect (comm s) port_name outcome of
              (c, success, msg) \<Rightarrow>
                s\<lparr>comm := c,
                  status_var := (if success then ''Connected: '' @ msg else ''Connection Failed'')\<rparr>))"

text \<open>The locals \<^verbatim>\<open>(tx, ty)\<close>, \<^verbatim>\<open>map_x\<close> and \<^verbatim>\<open>map_y\<close> of \<^verbatim>\<open>_update_dot_and_send\<close>.\<close>

definition target :: "interface \<Rightarrow> int \<Rightarrow> int \<Rightarrow> int \<times> int" where
  "target s x y =
     (let dx = x - center_x s; dy = y - center_y s
      in if dx * dx + dy * dy \<le> radius s * radius s then (x, y)
         else (center_x s, center_y s))"

definition map_x :: "interface \<Rightarrow> int \<Rightarrow> float64" where
  "map_x s tx =
     np_interp (float_of_int tx)
       (float_of_int (center_x s - radius s), float_of_int (center_x s + radius s))
       (float_of_int (- 50), float_of_int 50)"

definition map_y :: "interface \<Rightarrow> int \<Rightarrow> float64" where
  "map_y s ty =
     fneg (np_interp (float_of_int ty)
       (float_of_int (center_y s - radius s), float_of_int (center_y s + radius s))
       (float_of_int (- 50), float_of_int 50))"

definition update_dot_and_send :: "interface \<Rightarrow> int \<Rightarrow> int \<Rightarrow> interface" where
  "update_dot_and_send s x y =
     (case target s x y of
        (tx, ty) \<Rightarrow>
          s\<lparr>click_dot := Some (tx, ty),
            comm := move_eye (comm s) (map_x s tx) (map_y s ty)\<rparr>)"

definition on_left_press :: "interface \<Rightarrow> int \<Rightarrow> int \<Rightarrow> interface" where
  "on_left_press s x y = update_dot_and_send (s\<lparr>dragging := True\<rparr>) x y"

text \<open>\<open>on_drag s now x y\<close>: \<open>now\<close> is the reading of \<^verbatim>\<open>time.time()\<close>.\<close>

definition on_drag :: "interface \<Rightarrow> rat \<Rightarrow> int \<Rightarrow> int \<Rightarrow> interface" where
  "on_drag s now x y =
     (if \<not> dragging s then s
      else if now - last_send_time s \<ge> send_interval s
           then (update_dot_and_send s x y)\<lparr>last_send_time := now\<rparr>
           else s)"

definition on_left_release :: "interface \<Rightarrow> interface" where
  "on_left_release s = s\<lparr>dragging := False\<rparr>"

text \<open>
  A wheel event has the attributes \<^verbatim>\<open>delta\<close> and \<^verbatim>\<open>num\<close>; \<open>None\<close> stands for an
  attribute the event does not have (for \<^verbatim>\<open>num\<close>, also for one that is not a number).
\<close>

definition on_wheel :: "interface \<Rightarrow> int option \<Rightarrow> int option \<Rightarrow> interface" where
  "on_wheel s ev_delta ev_num =
     (let d = (case ev_delta of None \<Rightarrow> 0 | Some d \<Rightarrow> d)
      in if d \<noteq> 0 then s\<lparr>comm := control_lid (comm s) (d div 120)\<rparr>
         else if ev_num = Some 4 \<or> ev_num = Some 5
              then s\<lparr>comm := control_lid (comm s) (if ev_num = Some 4 then 1 else - 1)\<rparr>
              else s)"

definition on_right_click :: "interface \<Rightarrow> interface" where
  "on_right_click s = s\<lparr>comm := blink (comm s)\<rparr>"

subsection \<open>Event histories\<close>

datatype event =
    LeftPress int int
  | Drag rat int int
  | LeftRelease
  | RightClick
  | Wheel "int option" "int option"
  | ConnectClick string "string option"

fun handle :: "interface \<Rightarrow> event \<Rightarrow> interface" where
  "handle s (LeftPress x y) = on_left_press s x y"
| "handle s (Drag now x y) = on_drag s now x y"
| "handle s LeftRelease = on_left_release s"
| "handle s RightClick = on_right_click s"
| "handle s (Wheel d n) = on_wheel s d n"
| "handle s (ConnectClick p outcome) = on_connect s p outcome"

definition run :: "interface \<Rightarrow> event list \<Rightarrow> interface" where
  "run s evs = foldl handle s evs"

section \<open>Observations and notions of the specification\<close>

text \<open>
  The pair handed to \<^verbatim>\<open>move_eye\<close> for a pointer position, and the condition that the
  pointer lies on or inside the circle.
\<close>

definition gaze :: "interface \<Rightarrow> int \<Rightarrow> int \<Rightarrow> float64 \<times> float64" where
  "gaze s x y = (case target s x y of (tx, ty) \<Rightarrow> (map_x s tx, map_y s ty))"

definition in_circle :: "interface \<Rightarrow> int \<Rightarrow> int \<Rightarrow> bool" where
  "in_circle s x y =
     ((x - center_x s) * (x - center_x s) + (y - center_y s) * (y - center_y s)
        \<le> radius s * radius s)"

text \<open>
  The specification's coordinate map, in exact arithmetic: the linear map of \<open>t\<close> from the
  interval \<open>[lo, hi]\<close> onto \<open>[a, b]\<close>; and an exact rational written with two decimals
  (rounded to hundredths, ties to even).
\<close>

definition linear_map :: "rat \<Rightarrow> rat \<times> rat \<Rightarrow> rat \<times> rat \<Rightarrow> rat" where
  "linear_map t src dst =
     (case (src, dst) of ((lo, hi), (a, b)) \<Rightarrow> a + (t - lo) * (b - a) / (hi - lo))"

definition spec_x :: "interface \<Rightarrow> int \<Rightarrow> rat" where
  "spec_x s x =
     linear_map (of_int x) (of_int (center_x s - radius s), of_int (center_x s + radius s)) (- 50, 50)"

definition spec_y :: "interface \<Rightarrow> int \<Rightarrow> rat" where
  "spec_y s y =
     - linear_map (of_int y) (of_int (center_y s - radius s), of_int (center_y s + radius s)) (- 50, 50)"

definition render_2f :: "rat \<Rightarrow> string" where
  "render_2f q =
     (let n = nat (round_half_even (\<bar>q\<bar> * 100))
      in (if q < 0 then ''-'' else []) @ digits10 (n div 100) @ ''.''
         @ [digit_char (n mod 100 div 10), digit_char (n mod 10)])"

text \<open>The shape of a number with exactly two decimals, and of an integer without padding.\<close>

definition is_digit :: "char \<Rightarrow> bool" where
  "is_digit c = (c \<in> set ''0123456789'')"

definition unsigned :: "string \<Rightarrow> string" where
  "unsigned s = (if take 1 s = ''-'' then drop 1 s else s)"

definition two_decimals :: "string \<Rightarrow> bool" where
  "two_decimals s =
     (let u = unsigned s; n = length u
      in 4 \<le> n \<and> list_all is_digit (take (n - 3) u) \<and> u ! (n - 3) = CHR ''.''
         \<and> list_all is_digit (drop (n - 2) u))"

definition plain_integer :: "string \<Rightarrow> bool" where
  "plain_integer s =
     (let u = unsigned s
      in u \<noteq> [] \<and> list_all is_digit u \<and> (hd u \<noteq> CHR ''0'' \<or> u = ''0''))"

definition read_nat :: "string \<Rightarrow> nat" where
  "read_nat u = foldl (\<lambda>a c. 10 * a + (of_char c - 48)) 0 u"

definition read_int :: "string \<Rightarrow> int" where
  "read_int s = (if take 1 s = ''-'' then - int (read_nat (drop 1 s)) else int (read_nat s))"

text \<open>
  Reading a two-decimal text back: whether it carries a minus sign, and the magnitude it
  denotes (the digits before the point plus the two digits after it as hundredths).
\<close>

definition read_2f :: "string \<Rightarrow> bool \<times> rat" where
  "read_2f s =
     (let u = unsigned s; n = length u
      in (take 1 s = ''-'',
          of_nat (read_nat (take (n - 3) u)) + of_nat (read_nat (drop (n - 2) u)) / 100))"

text \<open>
  An \<^verbatim>\<open>EYE\<close> command leaves a console line that starts with the arrow and \<^verbatim>\<open>EYE\<close>;
  \<open>eye_count\<close> is the number of such commands sent so far.
\<close>

definition is_eye :: "effect \<Rightarrow> bool" where
  "is_eye e = (case e of Print p \<Rightarrow> take 8 p = arrow @ '' EYE '' | _ \<Rightarrow> False)"

definition eye_count :: "interface \<Rightarrow> nat" where
  "eye_count s = length (filter is_eye (trace (comm s)))"


text \<open>A drag session: a press followed by move events \<open>(clock, x, y)\<close>.\<close>

definition session :: "int \<times> int \<Rightarrow> (rat \<times> int \<times> int) list \<Rightarrow> event list" where
  "session p ms = LeftPress (fst p) (snd p) # map (\<lambda>(t, x, y). Drag t x y) ms"

text \<open>What \<^verbatim>\<open>_build_ui\<close> and \<^verbatim>\<open>__init__\<close> fix once and for all.\<close>

definition built :: "interface \<Rightarrow> bool" where
  "built s =
     (center_x s = 200 \<and> center_y s = 200 \<and> radius s = 180
      \<and> send_interval s = round_mag (1 / 100)
      \<and> baudrate (comm s) = 9600)"

text \<open>
  Observations of the transport: the byte strings written to the serial port so far, and the
  port that is open now (at most one).
\<close>

definition wire :: "communication \<Rightarrow> string list" where
  "wire c = concat (map (\<lambda>e. case e of SerialWrite b \<Rightarrow> [b] | _ \<Rightarrow> []) (trace c))"

definition open_ports :: "communication \<Rightarrow> string list" where
  "open_ports c = (case ser c of None \<Rightarrow> [] | Some sp \<Rightarrow> if is_open sp then [ser_port sp] else [])"

section \<open>Rounding to a double\<close>

lemma pow2_powi: "pow2 k = 2 powi k"
  by (simp add: pow2_def power_int_def inverse_eq_divide power_one_over)

lemma pow2_pos: "0 < pow2 k"
  by (simp add: pow2_powi)

lemma pow2_add: "pow2 (a + b) = pow2 a * pow2 b"
  by (simp add: pow2_powi power_int_add)

lemma pow2_mono: "a \<le> b \<Longrightarrow> pow2 a \<le> pow2 b"
  by (simp add: pow2_powi power_int_increasing)

lemma pow2_strict_mono: "a < b \<Longrightarrow> pow2 a < pow2 b"
  by (simp add: pow2_powi power_int_strict_increasing)

lemma pow2_nat: "pow2 (int n) = 2 ^ n"
  by (simp add: pow2_def)

lemma pow2_neg_nat: "pow2 (- int n) = 1 / 2 ^ n"
  by (cases n) (simp_all add: pow2_def nat_add_distrib)

lemma floorlog2_bounds:
  assumes "0 < n"
  shows "2 ^ (floorlog 2 n - 1) \<le> n" "n < 2 ^ floorlog 2 n" "0 < floorlog 2 n"
  using floorlog_bounds [of n 2] assms by (auto simp: floorlog_eq_zero_iff intro: Nat.gr0I)

lemma ilog2_bounds:
  assumes "0 < q"
  shows "pow2 (ilog2 q) \<le> q \<and> q < pow2 (ilog2 q + 1)"
proof (cases "1 \<le> q")
  case True
  define n where "n = nat \<lfloor>q\<rfloor>"
  define f where "f = floorlog 2 n"
  have fl: "1 \<le> \<lfloor>q\<rfloor>" using True by linarith
  then have nn: "(of_nat n :: rat) = of_int \<lfloor>q\<rfloor>" by (simp add: n_def)
  have n: "0 < n" "of_nat n \<le> q" "q < of_nat n + 1"
    using fl unfolding nn by (simp add: n_def, linarith+)
  have "ilog2 q = int (f - 1)"
    using True floorlog2_bounds(3) [OF n(1)] by (simp add: ilog2_def n_def f_def)
  then have e: "pow2 (ilog2 q) = 2 ^ (f - 1)" by (simp only: pow2_nat)
  have "ilog2 q + 1 = int f"
    using True floorlog2_bounds(3) [OF n(1)] by (simp add: ilog2_def n_def f_def)
  then have e1: "pow2 (ilog2 q + 1) = 2 ^ f" by (simp only: pow2_nat)
  have "(2::rat) ^ (f - 1) \<le> of_nat n"
    using floorlog2_bounds(1) [OF n(1)] unfolding f_def
    by (metis of_nat_le_iff of_nat_numeral of_nat_power)
  moreover have "n + 1 \<le> 2 ^ f" using floorlog2_bounds(2) [OF n(1)] by (simp add: f_def)
  then have "(of_nat (n + 1) :: rat) \<le> of_nat (2 ^ f)" using of_nat_le_iff by blast
  then have "(of_nat n :: rat) + 1 \<le> 2 ^ f" by simp
  ultimately show ?thesis using n unfolding e e1 by linarith
next
  case False
  define m where "m = nat (\<lceil>1 / q\<rceil> - 1)"
  define f where "f = floorlog 2 m"
  have iq: "1 < 1 / q" using False assms by simp
  then have c: "2 \<le> \<lceil>1 / q\<rceil>" by linarith
  define z where "z = \<lceil>1 / q\<rceil> - 1"
  have z: "1 \<le> z" "of_int z < 1 / q" "1 / q \<le> of_int z + 1"
    using c unfolding z_def by linarith+
  have mm: "(of_nat m :: rat) = of_int z" using z(1) by (simp add: m_def z_def [symmetric])
  have m: "0 < m" "of_nat m < 1 / q" "1 / q \<le> of_nat m + 1"
    using z unfolding mm by (simp_all add: m_def z_def [symmetric])
  have fpos: "0 < f" using floorlog2_bounds(3) [OF m(1)] by (simp add: f_def)
  have e0: "ilog2 q = - int f" using False by (simp add: ilog2_def m_def f_def)
  then have e: "pow2 (ilog2 q) = 1 / 2 ^ f" by (simp only: pow2_neg_nat)
  have "ilog2 q + 1 = - int (f - 1)" using fpos e0 by simp
  then have e1: "pow2 (ilog2 q + 1) = 1 / 2 ^ (f - 1)" by (simp only: pow2_neg_nat)
  have "(2::rat) ^ (f - 1) \<le> of_nat m"
    using floorlog2_bounds(1) [OF m(1)] unfolding f_def
    by (metis of_nat_le_iff of_nat_numeral of_nat_power)
  then have lo: "2 ^ (f - 1) < 1 / q" using m by linarith
  have "m + 1 \<le> 2 ^ f" using floorlog2_bounds(2) [OF m(1)] by (simp add: f_def)
  then have "(of_nat (m + 1) :: rat) \<le> of_nat (2 ^ f)" using of_nat_le_iff by blast
  then have hi: "1 / q \<le> 2 ^ f" using m by simp
  have "1 / 2 ^ f \<le> q" using hi assms
    by (simp add: field_simps)
  moreover have "q < 1 / 2 ^ (f - 1)" using lo assms
    by (simp add: field_simps)
  ultimately show ?thesis unfolding e e1 by simp
qed

lemma ilog2_unique:
  assumes "pow2 e \<le> q" "q < pow2 (e + 1)"
  shows "ilog2 q = e"
proof -
  have q: "0 < q" using assms(1) pow2_pos [of e] by linarith
  note b = ilog2_bounds [OF q]
  have "\<not> ilog2 q < e"
  proof
    assume "ilog2 q < e"
    then have "pow2 (ilog2 q + 1) \<le> pow2 e" by (intro pow2_mono) simp
    with b assms show False by linarith
  qed
  moreover have "\<not> e < ilog2 q"
  proof
    assume "e < ilog2 q"
    then have "pow2 (e + 1) \<le> pow2 (ilog2 q)" by (intro pow2_mono) simp
    with b assms show False by linarith
  qed
  ultimately show ?thesis by simp
qed

lemma rhe_near:
  assumes "of_int n - 1 / 2 < q" "q < of_int n + 1 / 2"
  shows "round_half_even q = n"
proof -
  have "\<lfloor>q\<rfloor> = n \<or> \<lfloor>q\<rfloor> = n - 1" using assms by linarith
  then show ?thesis
  proof
    assume f: "\<lfloor>q\<rfloor> = n"
    then have "q - of_int n < 1 / 2" using assms by simp
    then show ?thesis by (simp add: round_half_even_def f)
  next
    assume f: "\<lfloor>q\<rfloor> = n - 1"
    then have "1 / 2 < q - of_int (n - 1)" using assms by simp
    then show ?thesis by (simp add: round_half_even_def f)
  qed
qed

lemma rhe_int: "round_half_even (of_int n) = n"
  by (rule rhe_near) simp_all

lemma rhe_err: "\<bar>of_int (round_half_even q) - q\<bar> \<le> 1 / 2"
proof -
  have "of_int \<lfloor>q\<rfloor> \<le> q" "q < of_int \<lfloor>q\<rfloor> + 1" by linarith+
  then show ?thesis
    by (auto simp: round_half_even_def Let_def abs_le_iff) 
qed

lemma round_mag_at:
  assumes "pow2 e \<le> q" "q < pow2 (e + 1)"
  shows "round_mag q = of_int (round_half_even (q * pow2 (52 - e))) * pow2 (e - 52)"
proof -
  have "0 < q" using assms(1) pow2_pos [of e] by linarith
  then show ?thesis by (simp add: round_mag_def ilog2_unique [OF assms])
qed

lemma round_mag_err:
  assumes "0 < q"
  shows "\<bar>round_mag q - q\<bar> \<le> q / 2 ^ 53"
proof -
  define e where "e = ilog2 q"
  have b: "pow2 e \<le> q" "q < pow2 (e + 1)" using ilog2_bounds [OF assms] by (simp_all add: e_def)
  define z where "z = round_half_even (q * pow2 (52 - e))"
  have r: "round_mag q = of_int z * pow2 (e - 52)" using round_mag_at [OF b] by (simp add: z_def)
  have one: "pow2 (52 - e) * pow2 (e - 52) = 1"
    using pow2_add [of "52 - e" "e - 52"] by (simp add: pow2_def)
  have "\<bar>of_int z - q * pow2 (52 - e)\<bar> \<le> 1 / 2" unfolding z_def by (rule rhe_err)
  then have "\<bar>of_int z - q * pow2 (52 - e)\<bar> * pow2 (e - 52) \<le> 1 / 2 * pow2 (e - 52)"
    using pow2_pos [of "e - 52"] by (simp add: mult_right_mono)
  moreover have "\<bar>of_int z - q * pow2 (52 - e)\<bar> * pow2 (e - 52) = \<bar>round_mag q - q\<bar>"
  proof -
    have "\<bar>of_int z - q * pow2 (52 - e)\<bar> * pow2 (e - 52)
          = \<bar>(of_int z - q * pow2 (52 - e)) * pow2 (e - 52)\<bar>"
      using pow2_pos [of "e - 52"] by (simp add: abs_mult)
    also have "(of_int z - q * pow2 (52 - e)) * pow2 (e - 52) = round_mag q - q * (pow2 (52 - e) * pow2 (e - 52))"
      by (simp add: r algebra_simps)
    finally show ?thesis by (simp add: one)
  qed
  moreover have "1 / 2 * pow2 (e - 52) = pow2 e / 2 ^ 53"
    using pow2_add [of e "- 53"] pow2_add [of "e - 52" "-1"] by (simp add: pow2_def)
  moreover have "pow2 e / 2 ^ 53 \<le> q / 2 ^ 53" using b(1) by (simp add: divide_right_mono)
  ultimately show ?thesis by linarith
qed

lemma round_mag_int:
  assumes "0 \<le> n" "n < 2 ^ 53"
  shows "round_mag (of_int n) = of_int n"
proof (cases "n = 0")
  case True
  then show ?thesis by (simp add: round_mag_def)
next
  case False
  define q :: rat where "q = of_int n"
  have q: "0 < q" "q < 2 ^ 53" using assms False by (simp_all add: q_def)
  define e where "e = ilog2 q"
  have b: "pow2 e \<le> q" "q < pow2 (e + 1)" using ilog2_bounds [OF q(1)] by (simp_all add: e_def)
  have "\<not> 53 \<le> e"
  proof
    assume "53 \<le> e"
    then have "pow2 53 \<le> pow2 e" by (rule pow2_mono)
    with b q show False by (simp add: pow2_def)
  qed
  then have le: "e \<le> 52" by simp
  have "pow2 (52 - e) = of_int (2 ^ nat (52 - e))" using le by (simp add: pow2_def)
  then have "q * pow2 (52 - e) = of_int (n * 2 ^ nat (52 - e))" by (simp add: q_def)
  then have "round_half_even (q * pow2 (52 - e)) = n * 2 ^ nat (52 - e)"
    using rhe_int by presburger
  then have "round_mag q = of_int (n * 2 ^ nat (52 - e)) * pow2 (e - 52)"
    using round_mag_at [OF b] by simp
  also have "\<dots> = q * (pow2 (52 - e) * pow2 (e - 52))"
    using le by (simp add: q_def pow2_def)
  also have "pow2 (52 - e) * pow2 (e - 52) = 1"
    using pow2_add [of "52 - e" "e - 52"] by (simp add: pow2_def)
  finally show ?thesis by (simp add: q_def)
qed

section \<open>The coordinate map on the built geometry\<close>

lemma float_of_int_pos: "0 \<le> n \<Longrightarrow> n < 2 ^ 53 \<Longrightarrow> float_of_int n = Float64 False (of_int n)"
  by (simp add: float_of_int_def round_mag_int)

lemma round_mag_numeral: "numeral w < (2::int) ^ 53 \<Longrightarrow> round_mag (numeral w) = numeral w"
  using round_mag_int [of "numeral w"] by simp

lemma float_of_int_m50: "float_of_int (- 50) = Float64 True 50"
  by (simp add: float_of_int_def round_mag_numeral)

lemma span_y: "fsub (Float64 False 50) (Float64 True 50) = Float64 False 100"
  by (simp add: fsub_def fadd_def fneg_def fval_def round_mag_numeral)

lemma span_x: "fsub (Float64 False 380) (Float64 False 20) = Float64 False 360"
  by (simp add: fsub_def fadd_def fneg_def fval_def round_mag_numeral)

lemma slope_value:
  "fdiv (Float64 False 100) (Float64 False 360) = Float64 False (5003999585967218 / 2 ^ 54)"
proof -
  have "round_mag (100 / 360) = 5003999585967218 / 2 ^ 54"
  proof -
    have "round_half_even ((100 / 360) * pow2 (52 - (- 2))) = 5003999585967218"
      by (rule rhe_near) (simp_all add: pow2_def)
    moreover have "round_mag (100 / 360) =
        of_int (round_half_even ((100 / 360) * pow2 (52 - (- 2)))) * pow2 (- 2 - 52)"
      by (rule round_mag_at) (simp_all add: pow2_def)
    ultimately show ?thesis by (simp add: pow2_def)
  qed
  then show ?thesis by (simp add: fdiv_def)
qed

lemma product_at_centre: "round_mag (5003999585967218 / 2 ^ 54 * 180) = 50"
proof -
  have "round_half_even ((5003999585967218 / 2 ^ 54 * 180) * pow2 (52 - 5)) = 50 * 2 ^ 47"
    by (rule rhe_near) (simp_all add: pow2_def)
  moreover have "round_mag (5003999585967218 / 2 ^ 54 * 180) =
      of_int (round_half_even ((5003999585967218 / 2 ^ 54 * 180) * pow2 (52 - 5))) * pow2 (5 - 52)"
    by (rule round_mag_at) (simp_all add: pow2_def)
  ultimately show ?thesis by (simp add: pow2_def)
qed

lemma interval_value: "round_mag (1 / 100) = 5764607523034235 / 2 ^ 59"
proof -
  have "round_half_even ((1 / 100) * pow2 (52 - (- 7))) = 5764607523034235"
    by (rule rhe_near) (simp_all add: pow2_def)
  moreover have "round_mag (1 / 100) =
      of_int (round_half_even ((1 / 100) * pow2 (52 - (- 7)))) * pow2 (- 7 - 52)"
    by (rule round_mag_at) (simp_all add: pow2_def)
  ultimately show ?thesis by (simp add: pow2_def)
qed

lemma round_mag_nonneg: "0 \<le> q \<Longrightarrow> 0 \<le> round_mag q"
proof (cases "q = 0")
  case True
  then show ?thesis by (simp add: round_mag_def)
next
  case False
  assume "0 \<le> q"
  with False have q: "0 < q" by simp
  have "q / 2 ^ 53 \<le> q" using q by (simp add: field_simps)
  with round_mag_err [OF q] show ?thesis by linarith
qed

lemma interp_built:
  fixes t :: int
  assumes t: "20 \<le> t" "t \<le> 380"
  defines "v \<equiv> np_interp (float_of_int t) (float_of_int 20, float_of_int 380)
                   (float_of_int (- 50), float_of_int 50)"
  defines "lin \<equiv> (of_int t - 200) * 5 / (18::rat)"
  shows "sign_bit v = (lin < 0) \<and> \<bar>magnitude v - \<bar>lin\<bar>\<bar> \<le> 1 / 2 ^ 45
         \<and> (t = 200 \<longrightarrow> magnitude v = 0)"
proof -
  have ft: "float_of_int t = Float64 False (of_int t)"
    using t by (intro float_of_int_pos) simp_all
  have f20: "float_of_int 20 = Float64 False 20" and f380: "float_of_int 380 = Float64 False 380"
    and f50: "float_of_int 50 = Float64 False 50"
    using float_of_int_pos [of 20] float_of_int_pos [of 380] float_of_int_pos [of 50] by simp_all
  note fs = ft f20 f380 f50 float_of_int_m50
  consider "t = 20" | "t = 380" | "t = 200" | "20 < t" "t < 380" "t \<noteq> 200"
    using t by linarith
  then show ?thesis
  proof cases
    case 1
    then show ?thesis by (simp add: v_def lin_def fs np_interp_def fval_def)
  next
    case 2
    then show ?thesis by (simp add: v_def lin_def fs np_interp_def fval_def)
  next
    case 3
    have "v = fadd (fmul (Float64 False (5003999585967218 / 2 ^ 54)) (fsub (Float64 False 200) (Float64 False 20)))
                (Float64 True 50)"
      using float_of_int_pos [of 200] unfolding v_def 3
      by (simp add: f20 f380 f50 float_of_int_m50 np_interp_def fval_def span_x span_y slope_value)
    also have "fsub (Float64 False 200) (Float64 False 20) = Float64 False 180"
      by (simp add: fsub_def fadd_def fneg_def fval_def round_mag_numeral)
    also have "fmul (Float64 False (5003999585967218 / 2 ^ 54)) (Float64 False 180) = Float64 False 50"
      using product_at_centre by (simp add: fmul_def)
    also have "fadd (Float64 False 50) (Float64 True 50) = Float64 False 0"
      by (simp add: fadd_def fval_def)
    finally show ?thesis using 3 by (simp add: lin_def)
  next
    case 4
    define d where "d = t - 20"
    have d: "1 \<le> d" "d \<le> 359" "d \<le> 179 \<or> 181 \<le> d" "0 \<le> d" "d < 2 ^ 53"
      using 4 unfolding d_def by (simp_all, linarith)
    define k :: rat where "k = of_int d"
    have kt: "of_int t - 20 = k" by (simp add: k_def d_def)
    have k: "1 \<le> k" "k \<le> 359" "k \<le> 179 \<or> 181 \<le> k"
      using d(1-3) unfolding k_def by simp_all
    define a :: rat where "a = 5003999585967218 / 2 ^ 54 * k"
    define p where "p = round_mag a"
    define r where "r = p - 50"
    have "fsub (Float64 False (of_int t)) (Float64 False 20) = Float64 False k"
    proof -
      have "round_mag k = k"
        unfolding k_def using d(4,5) by (rule round_mag_int)
      moreover have "\<bar>k\<bar> = k" "k \<noteq> 0" "\<not> k < 0" using k by simp_all
      ultimately show ?thesis
        by (simp add: fsub_def fadd_def fneg_def fval_def kt)
    qed
    then have v: "v = fadd (Float64 False p) (Float64 True 50)"
      using 4 by (simp add: v_def fs np_interp_def fval_def span_x span_y slope_value fmul_def p_def a_def)
    have apos: "0 < a" using k by (simp add: a_def)
    have a1: "\<bar>a - 5 * k / 18\<bar> \<le> 40 / 2 ^ 53" using k unfolding a_def by simp
    have a2: "a \<le> 101" using k unfolding a_def by simp
    have "a / 2 ^ 53 \<le> 101 / 2 ^ 53" using a2 by simp
    with round_mag_err [OF apos] have p1: "\<bar>p - a\<bar> \<le> 101 / 2 ^ 53" unfolding p_def by linarith
    have "lin = 5 * (of_int t - 20) / 18 - 50" unfolding lin_def by (simp add: field_simps)
    then have lin: "lin = 5 * k / 18 - 50" by (simp only: kt)
    have rl: "\<bar>r - lin\<bar> \<le> 141 / 2 ^ 53" using a1 p1 unfolding r_def lin by linarith
    have linb: "lin \<le> - 5 / 18 \<or> 5 / 18 \<le> lin" "\<bar>lin\<bar> \<le> 50"
      using k unfolding lin by (elim disjE; simp)+
    have "(141::rat) / 2 ^ 53 \<le> 1 / 1000" by simp
    with rl have rl': "\<bar>r - lin\<bar> \<le> 1 / 1000" by linarith
    have r0: "r \<noteq> 0" "(r < 0) = (lin < 0)" "\<bar>r\<bar> \<le> 51"
    proof -
      from linb(1) have "r \<noteq> 0 \<and> (r < 0) = (lin < 0)"
      proof
        assume l: "lin \<le> - 5 / 18"
        then have "r < 0" "lin < 0" using rl' by linarith+
        then show ?thesis by simp
      next
        assume l: "5 / 18 \<le> lin"
        then have "0 < r" "0 < lin" using rl' by linarith+
        then show ?thesis by simp
      qed
      then show "r \<noteq> 0" "(r < 0) = (lin < 0)" by simp_all
      show "\<bar>r\<bar> \<le> 51" using rl' linb(2) by linarith
    qed
    have rpos: "0 < \<bar>r\<bar>" using r0 by simp
    have "\<bar>r\<bar> / 2 ^ 53 \<le> 51 / 2 ^ 53" using r0 by simp
    with round_mag_err [OF rpos] have m1: "\<bar>round_mag (\<bar>r\<bar>) - \<bar>r\<bar>\<bar> \<le> 51 / 2 ^ 53" by linarith
    have vv: "v = Float64 (r < 0) (round_mag (\<bar>r\<bar>))"
      using r0 by (simp add: v fadd_def fval_def r_def)
    have "\<bar>\<bar>r\<bar> - \<bar>lin\<bar>\<bar> \<le> 141 / 2 ^ 53" using rl by linarith
    then have "\<bar>round_mag (\<bar>r\<bar>) - \<bar>lin\<bar>\<bar> \<le> 51 / 2 ^ 53 + 141 / 2 ^ 53" using m1 by linarith
    moreover have "(51::rat) / 2 ^ 53 + 141 / 2 ^ 53 \<le> 1 / 2 ^ 45" by simp
    ultimately have "\<bar>round_mag (\<bar>r\<bar>) - \<bar>lin\<bar>\<bar> \<le> 1 / 2 ^ 45" by (rule order_trans)
    then show ?thesis using r0 4 vv by simp
  qed
qed

lemma rhe_ninths:
  assumes "\<bar>x - of_int m / 9\<bar> < 1 / 18"
  shows "round_half_even x = (m + 4) div 9"
proof (rule rhe_near)
  define n where "n = (m + 4) div 9"
  define j where "j = (m + 4) mod 9"
  have j: "0 \<le> j" "j \<le> 8" by (simp_all add: j_def) 
  have "m + 4 = 9 * n + j" by (simp add: n_def j_def)
  then have "m = 9 * n + j - 4" by simp
  then have "(of_int m :: rat) = 9 * of_int n + of_int j - 4" by simp
  moreover have "(0::rat) \<le> of_int j" "(of_int j :: rat) \<le> 8" using j by simp_all
  ultimately have "of_int n - 4 / 9 \<le> (of_int m :: rat) / 9" "(of_int m :: rat) / 9 \<le> of_int n + 4 / 9"
    by simp_all
  with assms show "of_int ((m + 4) div 9) - 1 / 2 < x" "x < of_int ((m + 4) div 9) + 1 / 2"
    unfolding n_def by linarith+
qed

lemma abs_scale: "\<bar>a * 100 - b * 100\<bar> = 100 * \<bar>a - b :: rat\<bar>"
proof -
  have "a * 100 - b * 100 = (a - b) * 100" by (simp add: algebra_simps)
  then have "\<bar>a * 100 - b * 100\<bar> = \<bar>(a - b) * 100\<bar>" by (rule arg_cong)
  also have "\<dots> = \<bar>a - b\<bar> * \<bar>100\<bar>" by (rule abs_mult)
  finally show ?thesis by simp
qed

lemma format_close:
  assumes "sign_bit v = (q < 0)" "\<bar>magnitude v - \<bar>q\<bar>\<bar> \<le> 1 / 2 ^ 45" "\<bar>q\<bar> * 100 = of_int m / 9"
  shows "format_2f v = render_2f q"
proof -
  have "(100::rat) * (1 / 2 ^ 45) < 1 / 18" by simp
  moreover have "\<bar>magnitude v * 100 - \<bar>q\<bar> * 100\<bar> = 100 * \<bar>magnitude v - \<bar>q\<bar>\<bar>"
    by (rule abs_scale)
  ultimately have "\<bar>magnitude v * 100 - of_int m / 9\<bar> < 1 / 18"
    using assms(2,3) by linarith
  then have "round_half_even (magnitude v * 100) = (m + 4) div 9" by (rule rhe_ninths)
  moreover have "round_half_even (\<bar>q\<bar> * 100) = (m + 4) div 9"
    by (rule rhe_ninths) (simp add: assms(3))
  ultimately show ?thesis by (simp add: format_2f_def render_2f_def assms(1))
qed

lemma spec_x_built: "built s \<Longrightarrow> spec_x s t = (of_int t - 200) * 5 / 18"
  by (simp add: built_def spec_x_def linear_map_def field_simps)

lemma spec_y_built: "built s \<Longrightarrow> spec_y s t = - ((of_int t - 200) * 5 / 18)"
  by (simp add: built_def spec_y_def linear_map_def field_simps)

lemma map_x_built:
  assumes "built s" "20 \<le> t" "t \<le> 380"
  shows "sign_bit (map_x s t) = (spec_x s t < 0)"
    and "\<bar>magnitude (map_x s t) - \<bar>spec_x s t\<bar>\<bar> \<le> 1 / 2 ^ 45"
    and "t = 200 \<Longrightarrow> map_x s t = Float64 False 0"
proof -
  have m: "map_x s t = np_interp (float_of_int t) (float_of_int 20, float_of_int 380)
                   (float_of_int (- 50), float_of_int 50)"
    using assms(1) by (simp add: map_x_def built_def)
  note i = interp_built [OF assms(2,3), folded m, folded spec_x_built [OF assms(1)]]
  show "sign_bit (map_x s t) = (spec_x s t < 0)"
    and "\<bar>magnitude (map_x s t) - \<bar>spec_x s t\<bar>\<bar> \<le> 1 / 2 ^ 45"
    using i by simp_all
  assume "t = 200"
  with i have "magnitude (map_x s t) = 0" "sign_bit (map_x s t) = False"
    using spec_x_built [OF assms(1), of t] by simp_all
  then show "map_x s t = Float64 False 0" by (cases "map_x s t") simp
qed

lemma map_y_built:
  assumes "built s" "20 \<le> t" "t \<le> 380"
  shows "sign_bit (map_y s t) = (spec_y s t \<le> 0)"
    and "\<bar>magnitude (map_y s t) - \<bar>spec_y s t\<bar>\<bar> \<le> 1 / 2 ^ 45"
    and "t = 200 \<Longrightarrow> map_y s t = Float64 True 0"
proof -
  define v where "v = np_interp (float_of_int t) (float_of_int 20, float_of_int 380)
                   (float_of_int (- 50), float_of_int 50)"
  have m: "map_y s t = fneg v"
    using assms(1) by (simp add: map_y_def built_def v_def)
  note i = interp_built [OF assms(2,3), folded v_def]
  have c0: "magnitude v = 0" "sign_bit v = False" if "t = 200"
    using i that by simp_all
  have sy: "spec_y s t = - ((of_int t - 200) * 5 / 18)" by (rule spec_y_built [OF assms(1)])
  define L :: rat where "L = (of_int t - 200) * 5 / 18"
  note i = i [folded L_def]
  note sy = sy [folded L_def]
  show "sign_bit (map_y s t) = (spec_y s t \<le> 0)"
    using i unfolding m sy by (auto simp: fneg_def)
  show "\<bar>magnitude (map_y s t) - \<bar>spec_y s t\<bar>\<bar> \<le> 1 / 2 ^ 45"
    using i unfolding m sy by (simp add: fneg_def)
  assume "t = 200"
  with c0 have "magnitude v = 0" "sign_bit v = False" by simp_all
  then show "map_y s t = Float64 True 0" unfolding m by (cases v) (simp add: fneg_def)
qed

lemma hundredths_built: "\<bar>(of_int t - 200) * 5 / (18::rat)\<bar> * 100 = of_int (250 * \<bar>t - 200\<bar>) / 9"
proof -
  define a :: rat where "a = of_int (t - 200)"
  have a: "of_int t - 200 = a" by (simp add: a_def)
  have "\<bar>a * 5 / 18\<bar> = \<bar>a\<bar> * 5 / 18" by (simp add: abs_mult)
  moreover have "\<bar>a\<bar> = of_int \<bar>t - 200\<bar>" unfolding a_def by (rule of_int_abs [symmetric])
  ultimately have "\<bar>a * 5 / 18\<bar> * 100 = of_int \<bar>t - 200\<bar> * 5 / 18 * 100" by simp
  also have "\<dots> = of_int (250 * \<bar>t - 200\<bar>) / 9" by simp
  finally show ?thesis unfolding a .
qed

lemma format_map_x:
  assumes "built s" "20 \<le> t" "t \<le> 380"
  shows "format_2f (map_x s t) = render_2f (spec_x s t)"
  using map_x_built(1,2) [OF assms] 
  by (rule format_close) (simp only: spec_x_built [OF assms(1)] hundredths_built)

lemma digits10_small: "n < 10 \<Longrightarrow> digits10 n = [digit_char n]"
  by (simp add: digits10.simps)

lemma render_zero: "render_2f 0 = ''0.00''"
  using rhe_int [of 0] by (simp add: render_2f_def digits10_small digit_char_def)

lemma format_map_y:
  assumes "built s" "20 \<le> t" "t \<le> 380"
  shows "format_2f (map_y s t) = (if t = 200 then ''-0.00'' else render_2f (spec_y s t))"
proof (cases "t = 200")
  case True
  have "format_2f (Float64 True 0) = ''-0.00''"
    using rhe_int [of 0] by (simp add: format_2f_def digits10_small digit_char_def)
  then show ?thesis using True map_y_built(3) [OF assms] by simp
next
  case False
  then have "spec_y s t \<noteq> 0" by (simp add: spec_y_built [OF assms(1)])
  then have "sign_bit (map_y s t) = (spec_y s t < 0)"
    using map_y_built(1) [OF assms] by (simp add: less_le)
  hence "format_2f (map_y s t) = render_2f (spec_y s t)"
    using map_y_built(2) [OF assms] 
    by (rule format_close) (simp only: spec_y_built [OF assms(1)] abs_minus_cancel hundredths_built)
  then show ?thesis using False by simp
qed

lemma in_circle_range:
  assumes "built s" "in_circle s x y"
  shows "20 \<le> x \<and> x \<le> 380 \<and> 20 \<le> y \<and> y \<le> 380"
proof -
  define dx dy where "dx = x - 200" and "dy = y - 200"
  have c: "dx * dx + dy * dy \<le> 180 * 180"
    using assms by (simp add: in_circle_def built_def dx_def dy_def)
  have "0 \<le> dx * dx" "0 \<le> dy * dy" by simp_all
  with c have "dx * dx \<le> 180 * 180" "dy * dy \<le> 180 * 180" by linarith+
  then have "\<bar>dx\<bar> \<le> 180" "\<bar>dy\<bar> \<le> 180"
    using abs_le_square_iff [of dx 180] abs_le_square_iff [of dy 180]
    by (simp_all add: power2_eq_square)
  then show ?thesis unfolding dx_def dy_def by linarith
qed

lemma target_inside: "in_circle s x y \<Longrightarrow> target s x y = (x, y)"
  by (simp add: target_def in_circle_def Let_def)

lemma target_outside: "\<not> in_circle s x y \<Longrightarrow> target s x y = (center_x s, center_y s)"
  by (simp add: target_def in_circle_def Let_def)

section \<open>Decimal text\<close>

lemma digit_char_is_digit: "is_digit (digit_char n)"
  unfolding is_digit_def digit_char_def by (rule nth_mem) simp

lemma below_ten: "(k::nat) < 10 \<Longrightarrow> k \<in> {0, 1, 2, 3, 4, 5, 6, 7, 8, 9}"
  by auto

lemma digit_char_value: "(of_char (digit_char n) :: nat) - 48 = n mod 10"
proof -
  have "n mod 10 < 10" by simp
  then have "n mod 10 \<in> {0, 1, 2, 3, 4, 5, 6, 7, 8, 9}" by (rule below_ten)
  then show ?thesis unfolding digit_char_def by (elim insertE emptyE) simp_all
qed

lemma minus_not_digit: "\<not> is_digit CHR ''-''" "\<not> is_digit CHR ''.''"
  by (simp_all add: is_digit_def)

lemma digits10_nonempty: "digits10 n \<noteq> []"
  by (subst digits10.simps) simp

lemma digits10_digits: "list_all is_digit (digits10 n)"
proof (induction n rule: digits10.induct)
  case (1 n)
  then show ?case by (subst digits10.simps) (simp add: digit_char_is_digit)
qed

lemma read_nat_snoc: "read_nat (u @ [c]) = 10 * read_nat u + (of_char c - 48)"
  by (simp add: read_nat_def)

lemma read_nat_digits10: "read_nat (digits10 n) = n"
proof (induction n rule: digits10.induct)
  case (1 n)
  show ?case
  proof (cases "n < 10")
    case True
    then show ?thesis
      using read_nat_snoc [of "[]" "digit_char n"]
      by (subst digits10.simps) (simp add: digit_char_value read_nat_def)
  next
    case False
    then have "read_nat (digits10 (n div 10)) = n div 10" using 1 by simp
    then show ?thesis using False
      by (subst digits10.simps) (simp add: read_nat_snoc digit_char_value)
  qed
qed

lemma digits10_zero: "digits10 0 = ''0''"
  by (simp add: digits10.simps digit_char_def)

lemma digits10_hd_nonzero: "n \<noteq> 0 \<Longrightarrow> hd (digits10 n) \<noteq> CHR ''0''"
proof (induction n rule: digits10.induct)
  case (1 n)
  show ?case
  proof (cases "n < 10")
    case True
    have "digit_char n \<noteq> CHR ''0''"
    proof
      assume "digit_char n = CHR ''0''"
      then have "(of_char (digit_char n) :: nat) - 48 = 0" by simp
      then show False using True "1.prems" by (simp add: digit_char_value)
    qed
    then show ?thesis using True by (subst digits10.simps) simp
  next
    case False
    then have "n div 10 \<noteq> 0" by simp
    then have "hd (digits10 (n div 10)) \<noteq> CHR ''0''" using False 1 by simp
    then show ?thesis using False digits10_nonempty [of "n div 10"]
      by (subst digits10.simps) simp
  qed
qed

lemma digits10_hd: "hd (digits10 n) \<noteq> CHR ''0'' \<or> digits10 n = ''0''"
  using digits10_hd_nonzero [of n] digits10_zero by (cases "n = 0") simp_all

lemma digits10_hd_digit: "is_digit (hd (digits10 n))"
  using digits10_digits [of n] digits10_nonempty [of n] by (cases "digits10 n") simp_all

lemma unsigned_digits10: "unsigned (digits10 n) = digits10 n"
proof -
  obtain c cs where d: "digits10 n = c # cs" using digits10_nonempty [of n] by (cases "digits10 n") auto
  then have "is_digit c" using digits10_hd_digit [of n] by simp
  then have "c \<noteq> CHR ''-''" using minus_not_digit by auto
  then show ?thesis by (simp add: unsigned_def d)
qed

lemma unsigned_minus: "unsigned (CHR ''-'' # u) = u"
  by (simp add: unsigned_def)

lemma unsigned_str_int: "unsigned (str_int i) = digits10 (nat \<bar>i\<bar>)"
  by (simp add: str_int_def unsigned_minus unsigned_digits10)

lemma plain_integer_str_int: "plain_integer (str_int i)"
  using digits10_hd [of "nat \<bar>i\<bar>"]
  by (simp add: plain_integer_def unsigned_str_int digits10_nonempty digits10_digits)

lemma read_int_str_int: "read_int (str_int i) = i"
proof (cases "i < 0")
  case True
  then show ?thesis by (simp add: read_int_def str_int_def read_nat_digits10)
next
  case False
  obtain c cs where d: "digits10 (nat i) = c # cs"
    using digits10_nonempty [of "nat i"] by (cases "digits10 (nat i)") auto
  then have "is_digit c" using digits10_hd_digit [of "nat i"] by simp
  then have "c \<noteq> CHR ''-''" using minus_not_digit by auto
  then have "take 1 (digits10 (nat i)) \<noteq> ''-''" by (simp add: d)
  then show ?thesis using False by (simp add: read_int_def str_int_def read_nat_digits10)
qed

lemma two_decimals_shape:
  assumes "list_all is_digit ds" "ds \<noteq> []" "is_digit a" "is_digit b"
  shows "two_decimals (ds @ ''.'' @ [a, b])" "two_decimals (''-'' @ ds @ ''.'' @ [a, b])"
proof -
  obtain c cs where d: "ds = c # cs" using assms(2) by (cases ds) auto
  then have "c \<noteq> CHR ''-''" using assms(1) minus_not_digit by auto
  then have u: "unsigned (ds @ [CHR ''.'', a, b]) = ds @ [CHR ''.'', a, b]" by (simp add: unsigned_def d)
  have l: "Suc 0 \<le> length ds" by (simp add: d)
  have t: "two_decimals (ds @ ''.'' @ [a, b])"
    using assms l by (simp add: two_decimals_def u Let_def nth_append)
  then show "two_decimals (ds @ ''.'' @ [a, b])" .
  show "two_decimals (''-'' @ ds @ ''.'' @ [a, b])"
    using assms l by (simp add: two_decimals_def unsigned_minus Let_def nth_append)
qed

lemma two_decimals_format_2f: "two_decimals (format_2f v)"
  using two_decimals_shape [OF digits10_digits digits10_nonempty digit_char_is_digit digit_char_is_digit]
  by (simp add: format_2f_def Let_def)

lemma two_decimals_render_2f: "two_decimals (render_2f q)"
  using two_decimals_shape [OF digits10_digits digits10_nonempty digit_char_is_digit digit_char_is_digit]
  by (simp add: render_2f_def Let_def)

lemma no_newline_digits: "list_all is_digit u \<Longrightarrow> CHR 0x0A \<notin> set u"
  by (induction u) (auto simp: is_digit_def)

section \<open>The transport\<close>

lemma send_fields [simp]:
  "ser (send c cmd) = ser c" "port (send c cmd) = port c" "baudrate (send c cmd) = baudrate c"
  "ser_is_open (send c cmd) = ser_is_open c" "open_ports (send c cmd) = open_ports c"
  by (simp_all add: send_def log_effect_def ser_is_open_def open_ports_def Let_def)

lemma send_trace:
  "trace (send c cmd) =
     trace c @ Print (arrow @ '' '' @ cmd) # (if ser_is_open c then [SerialWrite (cmd @ [CHR 0x0A])] else [])"
  by (simp add: send_def log_effect_def Let_def)

lemma send_closed: "\<not> ser_is_open c \<Longrightarrow> send c cmd = c\<lparr>trace := trace c @ [Print (arrow @ '' '' @ cmd)]\<rparr>"
  by (simp add: send_def log_effect_def Let_def)

lemma send_open:
  "ser_is_open c \<Longrightarrow>
     send c cmd = c\<lparr>trace := trace c @ [Print (arrow @ '' '' @ cmd), SerialWrite (cmd @ [CHR 0x0A])]\<rparr>"
  by (simp add: send_def log_effect_def Let_def)

lemma wire_send: "wire (send c cmd) = wire c @ (if ser_is_open c then [cmd @ [CHR 0x0A]] else [])"
  by (simp add: wire_def send_trace)

lemma close_if_open_fields:
  "baudrate (close_if_open c) = baudrate c"
  "trace (close_if_open c) = trace c @ map SerialClose (open_ports c)"
  "\<not> ser_is_open (close_if_open c)"
  by (auto simp: close_if_open_def log_effect_def open_ports_def ser_is_open_def split: option.splits)

lemma connect_success:
  "connect c p None = (c', r) \<Longrightarrow>
     r = (True, p @ ''@'' @ str_int (baudrate c))
     \<and> trace c' = trace c @ map SerialClose (open_ports c) @ [SerialOpen p (baudrate c) 1, Sleep 2]
     \<and> ser c' = Some \<lparr>ser_port = p, ser_baudrate = baudrate c, is_open = True\<rparr>
     \<and> port c' = Some p \<and> baudrate c' = baudrate c"
  by (auto simp: connect_def Let_def log_effect_def close_if_open_fields)

lemma connect_failure:
  "connect c p (Some msg) = (c', r) \<Longrightarrow>
     r = (False, msg)
     \<and> trace c' = trace c @ map SerialClose (open_ports c) @ [SerialOpen p (baudrate c) 1]
     \<and> ser c' = None \<and> baudrate c' = baudrate c"
  by (auto simp: connect_def Let_def log_effect_def close_if_open_fields)

lemma connect_baudrate: "baudrate (fst (connect c p outcome)) = baudrate c"
  by (cases outcome) (simp_all add: connect_def Let_def log_effect_def close_if_open_fields)

section \<open>Event histories\<close>

lemma run_Nil [simp]: "run s [] = s"
  by (simp add: run_def)

lemma run_Cons [simp]: "run s (ev # evs) = run (handle s ev) evs"
  by (simp add: run_def)

lemma run_append: "run s (xs @ ys) = run (run s xs) ys"
  by (simp add: run_def)

lemma built_init: "built Interface_init"
  by (simp add: built_def Interface_init_def Communication_init_def)

lemma update_dot_and_send_fields [simp]:
  "center_x (update_dot_and_send s x y) = center_x s"
  "center_y (update_dot_and_send s x y) = center_y s"
  "radius (update_dot_and_send s x y) = radius s"
  "send_interval (update_dot_and_send s x y) = send_interval s"
  "last_send_time (update_dot_and_send s x y) = last_send_time s"
  "dragging (update_dot_and_send s x y) = dragging s"
  "baudrate (comm (update_dot_and_send s x y)) = baudrate (comm s)"
  by (simp_all add: update_dot_and_send_def move_eye_def split: prod.splits)

lemma built_handle: "built s \<Longrightarrow> built (handle s ev)"
proof (cases ev)
  case (ConnectClick p outcome)
  assume "built s"
  then show ?thesis using connect_baudrate [of "comm s" p outcome]
    by (auto simp: ConnectClick built_def on_connect_def split: prod.splits)
qed (auto simp: built_def on_left_press_def on_drag_def on_left_release_def on_right_click_def
       on_wheel_def Let_def control_lid_def blink_def)

lemma built_run': "built s \<Longrightarrow> built (run s evs)"
  by (induction evs arbitrary: s) (simp_all add: built_handle)

lemma built_run: "built (run Interface_init evs)"
  by (rule built_run' [OF built_init])

section \<open>Small numerals as text\<close>

lemma str_int_examples:
  "str_int 0 = ''0''" "str_int 1 = ''1''" "str_int 2 = ''2''" "str_int (- 1) = ''-1''"
  "str_int 9600 = ''9600''"
  by (simp_all add: str_int_def digits10.simps digit_char_def)

section \<open>Encoder and wheel handler\<close>

lemma format_zero:
  "format_2f (Float64 False 0) = ''0.00''" "format_2f (Float64 True 0) = ''-0.00''"
  using rhe_int [of 0] by (simp_all add: format_2f_def digits10_small digit_char_def)

lemma digit_not_newline: "is_digit c \<Longrightarrow> c \<noteq> CHR 0x0A"
  by (auto simp: is_digit_def)

lemma format_2f_no_newline: "CHR 0x0A \<notin> set (format_2f v)"
proof -
  define n where "n = nat (round_half_even (magnitude v * 100))"
  have "CHR 0x0A \<notin> set (digits10 (n div 100))"
    by (rule no_newline_digits [OF digits10_digits])
  moreover have "digit_char (n mod 100 div 10) \<noteq> CHR 0x0A" "digit_char (n mod 10) \<noteq> CHR 0x0A"
    by (rule digit_not_newline [OF digit_char_is_digit])+
  ultimately show ?thesis
    unfolding format_2f_def n_def [symmetric] Let_def by (cases "sign_bit v") auto
qed

lemma str_int_no_newline: "CHR 0x0A \<notin> set (str_int d)"
  using no_newline_digits [OF digits10_digits] by (simp add: str_int_def)

lemma read_nat_two: "read_nat [digit_char a, digit_char b] = 10 * (a mod 10) + b mod 10"
  using read_nat_snoc [of "[digit_char a]" "digit_char b"] read_nat_snoc [of "[]" "digit_char a"]
  by (simp add: digit_char_value read_nat_def)

lemma read_2f_shape:
  assumes "list_all is_digit ds" "ds \<noteq> []"
  shows "read_2f ((if sg then ''-'' else []) @ ds @ ''.'' @ [digit_char a, digit_char b])
         = (sg, of_nat (read_nat ds) + of_nat (10 * (a mod 10) + b mod 10) / 100)"
proof -
  obtain c cs where d: "ds = c # cs" using assms(2) by (cases ds) auto
  then have c: "c \<noteq> CHR ''-''" using assms(1) minus_not_digit by auto
  have u: "unsigned (ds @ [CHR ''.'', digit_char a, digit_char b]) = ds @ [CHR ''.'', digit_char a, digit_char b]"
    using c by (simp add: unsigned_def d)
  have l: "Suc 0 \<le> length ds" by (simp add: d)
  show ?thesis
  proof (cases sg)
    case True
    then show ?thesis
      using l by (simp add: read_2f_def unsigned_minus Let_def read_nat_two)
  next
    case False
    have "take 1 (ds @ [CHR ''.'', digit_char a, digit_char b]) \<noteq> ''-''"
      using c by (simp add: d)
    then show ?thesis
      using False l by (simp add: read_2f_def u Let_def read_nat_two)
  qed
qed

lemma hundred_split:
  "(of_nat (n div 100) :: rat) + of_nat (10 * (n mod 100 div 10 mod 10) + n mod 10 mod 10) / 100
   = of_nat n / 100"
proof -
  define m where "m = n mod 100"
  have m: "m < 100" by (simp add: m_def)
  then have "m div 10 < 10" by simp
  then have a: "m div 10 mod 10 = m div 10" by simp
  have b: "n mod 10 = m mod 10" unfolding m_def by (simp add: mod_mod_cancel)
  have "10 * (m div 10 mod 10) + n mod 10 mod 10 = m" unfolding a b by simp
  then have e: "10 * (n mod 100 div 10 mod 10) + n mod 10 mod 10 = n mod 100" by (simp only: m_def)
  have k: "n div 100 * 100 + n mod 100 = n" by simp
  have "(of_nat (n div 100) :: rat) * 100 + of_nat (n mod 100)
        = of_nat (n div 100 * 100 + n mod 100)"
    by (simp only: of_nat_add of_nat_mult of_nat_numeral)
  also have "\<dots> = of_nat n" by (simp only: k)
  finally have "(of_nat n :: rat) = of_nat (n div 100) * 100 + of_nat (n mod 100)" by simp
  then show ?thesis unfolding e by simp
qed

lemma rhe_tie_even: "q = of_int f + 1 / 2 \<Longrightarrow> even f \<Longrightarrow> round_half_even q = f"
proof -
  assume q: "q = of_int f + 1 / 2" and e: "even f"
  have "\<lfloor>q\<rfloor> = f" unfolding q by (rule floor_unique) simp_all
  then show ?thesis using e by (simp add: round_half_even_def q)
qed

lemma read_2f_format_2f:
  "read_2f (format_2f v) = (sign_bit v, of_nat (nat (round_half_even (magnitude v * 100))) / 100)"
  unfolding format_2f_def Let_def
  by (simp only: read_2f_shape [OF digits10_digits digits10_nonempty] read_nat_digits10 hundred_split)

lemma rhe_nonneg: "0 \<le> q \<Longrightarrow> 0 \<le> round_half_even q"
  by (simp add: round_half_even_def Let_def)

lemma read_2f_nearest:
  assumes "0 \<le> magnitude v"
  shows "\<bar>snd (read_2f (format_2f v)) - magnitude v\<bar> \<le> 1 / 200"
proof -
  define z where "z = round_half_even (magnitude v * 100)"
  have "0 \<le> z" unfolding z_def using assms by (intro rhe_nonneg) simp
  then have "(of_nat (nat z) :: rat) = of_int z" by simp
  then have r: "snd (read_2f (format_2f v)) = of_int z / 100"
    by (simp add: read_2f_format_2f z_def)
  have "\<bar>of_int z - magnitude v * 100\<bar> \<le> 1 / 2" unfolding z_def by (rule rhe_err)
  then show ?thesis unfolding r by (simp add: abs_le_iff field_simps)
qed

lemma format_examples:
  "format_2f (Float64 False (1 / 8)) = ''0.12''"
  "format_2f (Float64 True (6321 / 512)) = ''-12.35''"
proof -
  have "round_half_even (1 / 8 * 100) = 12"
    by (rule rhe_tie_even) simp_all
  then show "format_2f (Float64 False (1 / 8)) = ''0.12''"
    by (simp add: format_2f_def digits10.simps digit_char_def)
  have "round_half_even (6321 / 512 * 100) = 1235"
    by (rule rhe_near) simp_all
  then show "format_2f (Float64 True (6321 / 512)) = ''-12.35''"
    by (simp add: format_2f_def digits10.simps digit_char_def)
qed

lemma str_int_more: "str_int (- 2) = ''-2''" "str_int (- 3) = ''-3''"
  by (simp_all add: str_int_def digits10.simps digit_char_def)

lemma on_wheel_delta:
  "d \<noteq> 0 \<Longrightarrow> on_wheel s (Some d) n = s\<lparr>comm := send (comm s) (''LID '' @ str_int (d div 120))\<rparr>"
  by (simp add: on_wheel_def control_lid_def)

lemma on_wheel_button:
  assumes "dl = None \<or> dl = Some 0"
  shows "on_wheel s dl (Some 4) = s\<lparr>comm := send (comm s) ''LID 1''\<rparr>"
    and "on_wheel s dl (Some 5) = s\<lparr>comm := send (comm s) ''LID -1''\<rparr>"
    and "n \<noteq> Some 4 \<Longrightarrow> n \<noteq> Some 5 \<Longrightarrow> on_wheel s dl n = s"
  using assms by (auto simp: on_wheel_def control_lid_def str_int_examples)

section \<open>Claims about the encoder, the transport and the wheel\<close>

text \<open>
  C5. Each encoder operation hands exactly one line to \<open>send\<close>. For \<open>EYE\<close> both
  coordinates are written with exactly two decimals, and each text reads back as the sign of
  the double and its magnitude rounded to the nearest hundredth (ties to even), so it is
  within half a hundredth of the value. The step count of \<open>LID\<close> is a plain signed
  integer without padding that reads back as the step count, and \<open>BLINK\<close> stands alone.
  No line contains a newline, and \<open>send\<close> prints the line and, on an open port, writes
  it as one newline-terminated record.
\<close>

theorem encoder_lines:
  "move_eye c x y = send c (''EYE '' @ format_2f x @ '' '' @ format_2f y)
   \<and> two_decimals (format_2f x) \<and> two_decimals (format_2f y)
   \<and> read_2f (format_2f x)
       = (sign_bit x, of_nat (nat (round_half_even (magnitude x * 100))) / 100)
   \<and> read_2f (format_2f y)
       = (sign_bit y, of_nat (nat (round_half_even (magnitude y * 100))) / 100)
   \<and> (0 \<le> magnitude x \<longrightarrow> \<bar>snd (read_2f (format_2f x)) - magnitude x\<bar> \<le> 1 / 200)
   \<and> (0 \<le> magnitude y \<longrightarrow> \<bar>snd (read_2f (format_2f y)) - magnitude y\<bar> \<le> 1 / 200)
   \<and> control_lid c d = send c (''LID '' @ str_int d)
   \<and> plain_integer (str_int d) \<and> read_int (str_int d) = d
   \<and> blink c = send c ''BLINK''
   \<and> CHR 0x0A \<notin> set (''EYE '' @ format_2f x @ '' '' @ format_2f y)
   \<and> CHR 0x0A \<notin> set (''LID '' @ str_int d)
   \<and> wire (send c line) = wire c @ (if ser_is_open c then [line @ [CHR 0x0A]] else [])
   \<and> trace (send c line)
       = trace c @ Print (arrow @ '' '' @ line)
           # (if ser_is_open c then [SerialWrite (line @ [CHR 0x0A])] else [])"
  using format_2f_no_newline [of x] format_2f_no_newline [of y] str_int_no_newline [of d]
    read_2f_nearest [of x] read_2f_nearest [of y]
  by (simp add: move_eye_def control_lid_def blink_def two_decimals_format_2f
      plain_integer_str_int read_int_str_int wire_send send_trace read_2f_format_2f)

theorem encoder_lines_witness:
  "move_eye (Communication_init 9600) (Float64 False (1 / 8)) (Float64 True (6321 / 512))
     = send (Communication_init 9600) ''EYE 0.12 -12.35''
   \<and> two_decimals ''0.12'' \<and> two_decimals ''-12.35''
   \<and> read_2f ''0.12'' = (False, 12 / 100) \<and> read_2f ''-12.35'' = (True, 1235 / 100)
   \<and> (0 :: rat) \<le> 1 / 8 \<and> \<bar>snd (read_2f ''0.12'') - 1 / 8\<bar> \<le> 1 / 200
   \<and> (0 :: rat) \<le> 6321 / 512 \<and> \<bar>snd (read_2f ''-12.35'') - 6321 / 512\<bar> \<le> 1 / 200
   \<and> control_lid (Communication_init 9600) (- 1) = send (Communication_init 9600) ''LID -1''
   \<and> plain_integer ''-1'' \<and> read_int ''-1'' = - 1
   \<and> blink (Communication_init 9600) = send (Communication_init 9600) ''BLINK''"
proof -
  have r1: "round_half_even (25 / 2) = 12" by (rule rhe_tie_even) simp_all
  have r2: "round_half_even (158025 / 128) = 1235" by (rule rhe_near) simp_all
  note r = r1 r2
  show ?thesis
    using encoder_lines [of "Communication_init 9600" "Float64 False (1 / 8)"
        "Float64 True (6321 / 512)" "- 1" "[]"]
    by (simp add: format_examples str_int_examples r)
qed

text \<open>
  C6. \<open>send\<close> never fails and never touches the connection (serial object, port name,
  baud rate). Exactly when a connection is open, the line followed by a newline is written
  to the port; otherwise nothing is written and the only effect is the console echo, which
  is printed in both cases.
\<close>

theorem send_best_effort:
  "ser (send c line) = ser c \<and> port (send c line) = port c
   \<and> baudrate (send c line) = baudrate c
   \<and> (ser_is_open c \<longrightarrow>
        wire (send c line) = wire c @ [line @ [CHR 0x0A]]
        \<and> trace (send c line)
            = trace c @ [Print (arrow @ '' '' @ line), SerialWrite (line @ [CHR 0x0A])])
   \<and> (\<not> ser_is_open c \<longrightarrow>
        wire (send c line) = wire c
        \<and> send c line = c\<lparr>trace := trace c @ [Print (arrow @ '' '' @ line)]\<rparr>)
   \<and> (wire (send c line) \<noteq> wire c \<longleftrightarrow> ser_is_open c)"
  using send_closed [of c line] by (auto simp: wire_send send_trace)

theorem send_best_effort_witness:
  "\<not> ser_is_open (Communication_init 9600)
   \<and> wire (send (Communication_init 9600) ''BLINK'') = []
   \<and> send (Communication_init 9600) ''BLINK''
       = \<lparr>baudrate = 9600, ser = None, port = None, trace = [Print (arrow @ '' BLINK'')]\<rparr>
   \<and> ser_is_open (fst (connect (Communication_init 9600) ''COM3'' None))
   \<and> wire (send (fst (connect (Communication_init 9600) ''COM3'' None)) ''BLINK'')
       = [''BLINK'' @ [CHR 0x0A]]"
  using send_best_effort [of "Communication_init 9600" "''BLINK''"]
    send_best_effort [of "fst (connect (Communication_init 9600) ''COM3'' None)" "''BLINK''"]
  by (simp add: Communication_init_def connect_def close_if_open_def log_effect_def
      ser_is_open_def wire_def Let_def)

text \<open>
  C7. In every state the program can reach, \<open>connect\<close> first closes the port that is
  open, if any, then attempts to open the requested port at 9600 baud. When the port opens,
  it sleeps 2 seconds and then returns success with the text \<open>port@9600\<close>; the new port is
  the open one. When opening fails with a message, \<open>connect\<close> returns \<open>(False, message)\<close>
  as a value, without the sleep, and no port is open afterwards.
\<close>

theorem connect_contract:
  "snd (connect (comm (run Interface_init evs)) p None) = (True, p @ ''@9600'')
   \<and> trace (fst (connect (comm (run Interface_init evs)) p None))
       = trace (comm (run Interface_init evs))
         @ map SerialClose (open_ports (comm (run Interface_init evs)))
         @ [SerialOpen p 9600 1, Sleep 2]
   \<and> open_ports (fst (connect (comm (run Interface_init evs)) p None)) = [p]
   \<and> port (fst (connect (comm (run Interface_init evs)) p None)) = Some p
   \<and> snd (connect (comm (run Interface_init evs)) p (Some msg)) = (False, msg)
   \<and> trace (fst (connect (comm (run Interface_init evs)) p (Some msg)))
       = trace (comm (run Interface_init evs))
         @ map SerialClose (open_ports (comm (run Interface_init evs)))
         @ [SerialOpen p 9600 1]
   \<and> ser (fst (connect (comm (run Interface_init evs)) p (Some msg))) = None
   \<and> open_ports (fst (connect (comm (run Interface_init evs)) p (Some msg))) = []
   \<and> \<not> ser_is_open (fst (connect (comm (run Interface_init evs)) p (Some msg)))"
proof -
  define c where "c = comm (run Interface_init evs)"
  have b: "baudrate c = 9600" using built_run [of evs] by (simp add: built_def c_def)
  obtain c1 r1 where s: "connect c p None = (c1, r1)" by (cases "connect c p None") auto
  obtain c2 r2 where f: "connect c p (Some msg) = (c2, r2)" by (cases "connect c p (Some msg)") auto
  show ?thesis
    using connect_success [OF s] connect_failure [OF f]
    unfolding c_def [symmetric] s f b
    by (simp add: open_ports_def ser_is_open_def str_int_examples)
qed

theorem connect_contract_witness:
  "snd (connect (comm (run Interface_init [ConnectClick ''COM3'' None])) ''COM4'' (Some ''busy''))
     = (False, ''busy'')
   \<and> trace (fst (connect (comm (run Interface_init [ConnectClick ''COM3'' None])) ''COM4'' (Some ''busy'')))
     = [SerialOpen ''COM3'' 9600 1, Sleep 2, SerialClose ''COM3'', SerialOpen ''COM4'' 9600 1]
   \<and> snd (connect (comm (run Interface_init [])) ''COM3'' None) = (True, ''COM3@9600'')"
  using connect_contract [of "[ConnectClick ''COM3'' None]" "''COM4''" "''busy''"]
    connect_contract [of "[]" "''COM3''" "''busy''"]
  by (simp add: Interface_init_def Communication_init_def on_connect_def connect_def
      close_if_open_def log_effect_def open_ports_def Let_def)

text \<open>
  C8. The wheel handler sends exactly one \<open>LID\<close> command for a delta that is not zero,
  with the floor of \<open>delta / 120\<close> as the step count. A delta of 240 gives \<open>LID 2\<close>, and
  without a delta button 4 gives \<open>LID 1\<close> and button 5 gives \<open>LID -1\<close>. But a delta
  of one unit, a single notch where the platform does not count in units of 120, gives
  \<open>LID 0\<close> upwards and \<open>LID -1\<close> downwards, and a delta of -180 gives \<open>LID -2\<close>: the
  step count is not one step per notch.
\<close>

theorem on_wheel_sub_notch:
  "on_wheel s (Some 1) n = s\<lparr>comm := send (comm s) ''LID 0''\<rparr>
   \<and> on_wheel s (Some (- 1)) n = s\<lparr>comm := send (comm s) ''LID -1''\<rparr>
   \<and> on_wheel s (Some (- 180)) n = s\<lparr>comm := send (comm s) ''LID -2''\<rparr>
   \<and> on_wheel s (Some 240) n = s\<lparr>comm := send (comm s) ''LID 2''\<rparr>
   \<and> on_wheel s None (Some 4) = s\<lparr>comm := send (comm s) ''LID 1''\<rparr>
   \<and> on_wheel s None (Some 5) = s\<lparr>comm := send (comm s) ''LID -1''\<rparr>"
  using on_wheel_delta [of 1 s n] on_wheel_delta [of "- 1" s n] on_wheel_delta [of "- 180" s n]
    on_wheel_delta [of 240 s n] on_wheel_button(1,2) [where dl = None and s = s]
  by (simp add: str_int_examples str_int_more)



section \<open>The gaze of a pointer position\<close>

lemma update_dot_and_send_gaze:
  "comm (update_dot_and_send s x y) = move_eye (comm s) (fst (gaze s x y)) (snd (gaze s x y))"
  "click_dot (update_dot_and_send s x y) = Some (target s x y)"
  by (simp_all add: update_dot_and_send_def gaze_def split: prod.splits)

lemma gaze_inside: "in_circle s x y \<Longrightarrow> gaze s x y = (map_x s x, map_y s y)"
  by (simp add: gaze_def target_inside)

lemma gaze_outside:
  assumes "built s" "\<not> in_circle s x y"
  shows "gaze s x y = (Float64 False 0, Float64 True 0)"
proof -
  have "gaze s x y = (map_x s 200, map_y s 200)"
    using assms by (simp add: gaze_def target_outside built_def)
  then show ?thesis
    using map_x_built(3) [OF assms(1), of 200] map_y_built(3) [OF assms(1), of 200] by simp
qed

lemma in_circle_power:
  "in_circle s x y \<longleftrightarrow> (x - center_x s)\<^sup>2 + (y - center_y s)\<^sup>2 \<le> (radius s)\<^sup>2"
  by (simp add: in_circle_def power2_eq_square)

lemma fval_close:
  assumes "sign_bit v = (q < 0) \<or> (q = 0 \<and> sign_bit v)" "\<bar>magnitude v - \<bar>q\<bar>\<bar> \<le> e"
  shows "\<bar>fval v - q\<bar> \<le> e"
  using assms by (auto simp: fval_def)

lemma gaze_close:
  assumes "built s" "in_circle s x y"
  shows "\<bar>fval (fst (gaze s x y)) - spec_x s x\<bar> \<le> 1 / 2 ^ 45"
    and "\<bar>fval (snd (gaze s x y)) - spec_y s y\<bar> \<le> 1 / 2 ^ 45"
proof -
  note r = in_circle_range [OF assms]
  have x: "20 \<le> x" "x \<le> 380" and y: "20 \<le> y" "y \<le> 380" using r by simp_all
  show "\<bar>fval (fst (gaze s x y)) - spec_x s x\<bar> \<le> 1 / 2 ^ 45"
    unfolding gaze_inside [OF assms(2)] fst_conv
    using map_x_built(1,2) [OF assms(1) x] by (intro fval_close) simp_all
  have "sign_bit (map_y s y) = (spec_y s y < 0) \<or> (spec_y s y = 0 \<and> sign_bit (map_y s y))"
    using map_y_built(1) [OF assms(1) y] by (auto simp: less_le)
  then show "\<bar>fval (snd (gaze s x y)) - spec_y s y\<bar> \<le> 1 / 2 ^ 45"
    unfolding gaze_inside [OF assms(2)] snd_conv
    using map_y_built(2) [OF assms(1) y] by (intro fval_close) simp_all
qed

lemma eye_line_inside:
  assumes "built s" "in_circle s x y"
  shows "comm (update_dot_and_send s x y)
         = send (comm s) (''EYE '' @ render_2f (spec_x s x) @ '' ''
                          @ (if y = center_y s then ''-0.00'' else render_2f (spec_y s y)))"
proof -
  note r = in_circle_range [OF assms]
  have x: "20 \<le> x" "x \<le> 380" and y: "20 \<le> y" "y \<le> 380" using r by simp_all
  have c: "center_y s = 200" using assms(1) by (simp add: built_def)
  show ?thesis
    unfolding update_dot_and_send_gaze gaze_inside [OF assms(2)] fst_conv snd_conv move_eye_def
      format_map_x [OF assms(1) x] format_map_y [OF assms(1) y] c ..
qed

lemma eye_line_outside:
  assumes "built s" "\<not> in_circle s x y"
  shows "comm (update_dot_and_send s x y) = send (comm s) ''EYE 0.00 -0.00''"
  unfolding update_dot_and_send_gaze gaze_outside [OF assms] fst_conv snd_conv move_eye_def
    format_zero by simp

lemma render_fifty: "render_2f 50 = ''50.00''" "render_2f (- 50) = ''-50.00''"
  using rhe_int [of 5000] by (simp_all add: render_2f_def digits10.simps digit_char_def)

lemma spec_examples:
  assumes "built s"
  shows "spec_x s 200 = 0" "spec_x s 20 = - 50" "spec_y s 20 = 50" "spec_y s 200 = 0"
  by (simp_all add: spec_x_built [OF assms] spec_y_built [OF assms])

lemma in_circle_examples:
  assumes "built s"
  shows "in_circle s 200 20" "in_circle s 20 200" "\<not> in_circle s 500 500"
    "\<not> in_circle s 10 200" "in_circle s 100 200"
  using assms by (simp_all add: in_circle_def built_def)

lemma eye_line_examples:
  assumes "built s"
  shows "comm (update_dot_and_send s 200 20) = send (comm s) ''EYE 0.00 50.00''"
    and "comm (update_dot_and_send s 20 200) = send (comm s) ''EYE -50.00 -0.00''"
    and "comm (update_dot_and_send s 500 500) = send (comm s) ''EYE 0.00 -0.00''"
proof -
  have c: "center_y s = 200" using assms by (simp add: built_def)
  show "comm (update_dot_and_send s 200 20) = send (comm s) ''EYE 0.00 50.00''"
    unfolding eye_line_inside [OF assms in_circle_examples(1) [OF assms]] spec_examples [OF assms] c
    by (simp add: render_zero render_fifty)
  show "comm (update_dot_and_send s 20 200) = send (comm s) ''EYE -50.00 -0.00''"
    unfolding eye_line_inside [OF assms in_circle_examples(2) [OF assms]] spec_examples [OF assms] c
    by (simp add: render_zero render_fifty)
  show "comm (update_dot_and_send s 500 500) = send (comm s) ''EYE 0.00 -0.00''"
    by (rule eye_line_outside [OF assms in_circle_examples(3) [OF assms]])
qed

lemma send_inject: "send c a = send c b \<Longrightarrow> a = b"
proof -
  assume "send c a = send c b"
  then have "trace (send c a) = trace (send c b)" by simp
  then show "a = b" by (simp add: send_trace)
qed

lemma map_x_strict_mono:
  assumes "built s" "20 \<le> a" "a < b" "b \<le> 380"
  shows "fval (map_x s a) < fval (map_x s b)"
proof -
  have ra: "20 \<le> a" "a \<le> 380" and rb: "20 \<le> b" "b \<le> 380" using assms by simp_all
  have ca: "\<bar>fval (map_x s a) - spec_x s a\<bar> \<le> 1 / 2 ^ 45"
    using map_x_built(1,2) [OF assms(1) ra] by (intro fval_close) simp_all
  have cb: "\<bar>fval (map_x s b) - spec_x s b\<bar> \<le> 1 / 2 ^ 45"
    using map_x_built(1,2) [OF assms(1) rb] by (intro fval_close) simp_all
  have "a + 1 \<le> b" using assms(3) by simp
  then have "(of_int a :: rat) + 1 \<le> of_int b"
    by (metis of_int_1 of_int_add of_int_le_iff)
  then have "spec_x s a + 5 / 18 \<le> spec_x s b"
    unfolding spec_x_built [OF assms(1)] by (simp add: field_simps)
  moreover have "(1::rat) / 2 ^ 45 \<le> 1 / 10" by simp
  ultimately show ?thesis using ca cb by linarith
qed

section \<open>Claims about the coordinate map\<close>

text \<open>
  C1 (amended). In every state the program can reach, for every pointer position on or
  inside the circle, the command sent is \<open>EYE X Y\<close> where \<open>X\<close> is the two-decimal text of
  the linear map of \<open>x\<close> from \<open>[cx - r, cx + r]\<close> onto \<open>[-50, 50]\<close> and \<open>Y\<close> the two-decimal
  text of the negated linear map of \<open>y\<close>, except that at \<open>y = cy\<close> the text is \<open>-0.00\<close>,
  the negation of a floating-point zero; the two doubles differ from the exact maps by at
  most \<open>2\<^sup>-\<^sup>4\<^sup>5\<close>. With centre (200, 200) and radius 180, the pointer (200, 20) gives
  \<open>EYE 0.00 50.00\<close>, the pointer (20, 200) gives \<open>EYE -50.00 -0.00\<close> and the pointer
  (500, 500) gives \<open>EYE 0.00 -0.00\<close>.
\<close>

theorem eye_command_in_circle:
  assumes "s = run Interface_init evs"
  shows "((x - center_x s)\<^sup>2 + (y - center_y s)\<^sup>2 \<le> (radius s)\<^sup>2 \<longrightarrow>
            comm (update_dot_and_send s x y)
              = send (comm s) (''EYE '' @ render_2f (spec_x s x) @ '' ''
                    @ (if y = center_y s then ''-0.00'' else render_2f (spec_y s y)))
            \<and> \<bar>fval (fst (gaze s x y)) - spec_x s x\<bar> \<le> 1 / 2 ^ 45
            \<and> \<bar>fval (snd (gaze s x y)) - spec_y s y\<bar> \<le> 1 / 2 ^ 45)
         \<and> center_x s = 200 \<and> center_y s = 200 \<and> radius s = 180
         \<and> comm (update_dot_and_send s 200 20) = send (comm s) ''EYE 0.00 50.00''
         \<and> comm (update_dot_and_send s 20 200) = send (comm s) ''EYE -50.00 -0.00''
         \<and> comm (update_dot_and_send s 500 500) = send (comm s) ''EYE 0.00 -0.00''"
proof -
  have b: "built s" unfolding assms by (rule built_run)
  show ?thesis
    using eye_line_inside [OF b, of x y] gaze_close [OF b, of x y] eye_line_examples [OF b] b
    by (simp add: in_circle_power built_def)
qed

theorem eye_command_in_circle_witness:
  "(110 - center_x Interface_init)\<^sup>2 + (290 - center_y Interface_init)\<^sup>2 \<le> (radius Interface_init)\<^sup>2
   \<and> comm (update_dot_and_send Interface_init 110 290)
       = send (comm Interface_init) ''EYE -25.00 -25.00''"
  using eye_command_in_circle [of Interface_init "[]" 110 290] rhe_int [of 2500]
  by (simp add: Interface_init_def spec_x_def spec_y_def linear_map_def render_2f_def
      digits10.simps digit_char_def)

theorem eye_command_left_counterexample:
  "comm (update_dot_and_send Interface_init 20 200) = send (comm Interface_init) ''EYE -50.00 -0.00''
   \<and> comm (update_dot_and_send Interface_init 20 200) \<noteq> send (comm Interface_init) ''EYE -50.00 0.00''"
proof -
  have e: "comm (update_dot_and_send Interface_init 20 200)
           = send (comm Interface_init) ''EYE -50.00 -0.00''"
    by (rule eye_line_examples(2) [OF built_init])
  have "send (comm Interface_init) ''EYE -50.00 -0.00'' \<noteq> send (comm Interface_init) ''EYE -50.00 0.00''"
    using send_inject [of "comm Interface_init" "''EYE -50.00 -0.00''" "''EYE -50.00 0.00''"]
    by auto
  with e show ?thesis by simp
qed

text \<open>
  C4. In every state the program can reach, a pointer position strictly outside the circle
  is replaced by the centre, and both mapped outputs are zero exactly (the command is
  \<open>EYE 0.00 -0.00\<close>); a position on or inside the circle is kept as it is.
\<close>

theorem outside_snaps_to_center:
  assumes "s = run Interface_init evs"
  shows "((x - center_x s)\<^sup>2 + (y - center_y s)\<^sup>2 > (radius s)\<^sup>2 \<longrightarrow>
            target s x y = (center_x s, center_y s)
            \<and> click_dot (update_dot_and_send s x y) = Some (center_x s, center_y s)
            \<and> fval (fst (gaze s x y)) = 0 \<and> fval (snd (gaze s x y)) = 0
            \<and> comm (update_dot_and_send s x y) = send (comm s) ''EYE 0.00 -0.00'')
         \<and> ((x - center_x s)\<^sup>2 + (y - center_y s)\<^sup>2 \<le> (radius s)\<^sup>2 \<longrightarrow>
            target s x y = (x, y)
            \<and> click_dot (update_dot_and_send s x y) = Some (x, y))"
proof -
  have b: "built s" unfolding assms by (rule built_run)
  show ?thesis
  proof (cases "in_circle s x y")
    case True
    then show ?thesis
      using target_inside [OF True] by (simp add: in_circle_power update_dot_and_send_gaze)
  next
    case False
    then show ?thesis
      using target_outside [OF False] gaze_outside [OF b False] eye_line_outside [OF b False]
      by (simp add: in_circle_power update_dot_and_send_gaze fval_def)
  qed
qed

theorem outside_snaps_to_center_witness:
  "(500 - center_x Interface_init)\<^sup>2 + (500 - center_y Interface_init)\<^sup>2 > (radius Interface_init)\<^sup>2
   \<and> target Interface_init 500 500 = (200, 200)
   \<and> fval (fst (gaze Interface_init 500 500)) = 0 \<and> fval (snd (gaze Interface_init 500 500)) = 0
   \<and> (200 - center_x Interface_init)\<^sup>2 + (20 - center_y Interface_init)\<^sup>2 \<le> (radius Interface_init)\<^sup>2
   \<and> target Interface_init 200 20 = (200, 20)"
  using outside_snaps_to_center [of Interface_init "[]" 500 500]
    outside_snaps_to_center [of Interface_init "[]" 200 20]
  by (simp add: Interface_init_def)

text \<open>
  C9 (amended). In every state the program can reach, for a fixed pointer \<open>y\<close>, among the
  positions on or inside the circle a larger pointer \<open>x\<close> gives a strictly larger mapped
  \<open>x\<close> output; every position outside the circle gives the output 0.
\<close>

theorem mapped_x_monotone_inside:
  assumes "s = run Interface_init evs"
  shows "((x1 - center_x s)\<^sup>2 + (y - center_y s)\<^sup>2 \<le> (radius s)\<^sup>2
          \<and> (x2 - center_x s)\<^sup>2 + (y - center_y s)\<^sup>2 \<le> (radius s)\<^sup>2 \<and> x1 < x2 \<longrightarrow>
            fval (fst (gaze s x1 y)) < fval (fst (gaze s x2 y)))
         \<and> ((x - center_x s)\<^sup>2 + (y - center_y s)\<^sup>2 > (radius s)\<^sup>2 \<longrightarrow>
            fval (fst (gaze s x y)) = 0)"
proof -
  have b: "built s" unfolding assms by (rule built_run)
  have "fval (fst (gaze s x1 y)) < fval (fst (gaze s x2 y))"
    if i: "in_circle s x1 y" "in_circle s x2 y" and l: "x1 < x2"
  proof -
    have "20 \<le> x1" "x2 \<le> 380"
      using in_circle_range [OF b i(1)] in_circle_range [OF b i(2)] by simp_all
    then show ?thesis
      unfolding gaze_inside [OF i(1)] gaze_inside [OF i(2)] fst_conv
      using l by (intro map_x_strict_mono [OF b])
  qed
  moreover have "fval (fst (gaze s x y)) = 0" if "\<not> in_circle s x y"
    using gaze_outside [OF b that] by (simp add: fval_def)
  ultimately show ?thesis by (simp add: in_circle_power not_le)
qed

theorem mapped_x_monotone_inside_witness:
  "(100 - center_x Interface_init)\<^sup>2 + (200 - center_y Interface_init)\<^sup>2 \<le> (radius Interface_init)\<^sup>2
   \<and> (300 - center_x Interface_init)\<^sup>2 + (200 - center_y Interface_init)\<^sup>2 \<le> (radius Interface_init)\<^sup>2
   \<and> fval (fst (gaze Interface_init 100 200)) < fval (fst (gaze Interface_init 300 200))
   \<and> (10 - center_x Interface_init)\<^sup>2 + (200 - center_y Interface_init)\<^sup>2 > (radius Interface_init)\<^sup>2
   \<and> fval (fst (gaze Interface_init 10 200)) = 0"
  using mapped_x_monotone_inside [of Interface_init "[]" 100 200 300 10]
  by (simp add: Interface_init_def)

theorem mapped_x_decreases_counterexample:
  "(10::int) < 100
   \<and> fval (fst (gaze Interface_init 10 200)) = 0
   \<and> fval (fst (gaze Interface_init 100 200)) < 0
   \<and> \<not> fval (fst (gaze Interface_init 10 200)) \<le> fval (fst (gaze Interface_init 100 200))"
proof -
  note b = built_init
  have o: "fval (fst (gaze Interface_init 10 200)) = 0"
    using gaze_outside [OF b in_circle_examples(4) [OF b]] by (simp add: fval_def)
  have "\<bar>fval (fst (gaze Interface_init 100 200)) - spec_x Interface_init 100\<bar> \<le> 1 / 2 ^ 45"
    by (rule gaze_close(1) [OF b in_circle_examples(5) [OF b]])
  moreover have "spec_x Interface_init 100 = - 250 / 9"
    by (simp add: spec_x_built [OF b])
  moreover have "(1::rat) / 2 ^ 45 \<le> 1" by simp
  ultimately have "fval (fst (gaze Interface_init 100 200)) < 0" by linarith
  with o show ?thesis by simp
qed

section \<open>The drag throttle\<close>

lemma is_eye_Print [simp]:
  "is_eye (Print (arrow @ CHR '' '' # a # b # c # d # r))
     = (a = CHR ''E'' \<and> b = CHR ''Y'' \<and> c = CHR ''E'' \<and> d = CHR '' '')"
  by (auto simp: is_eye_def arrow_def)

lemma is_eye_others [simp]:
  "\<not> is_eye (SerialWrite b)" "\<not> is_eye (SerialClose q)" "\<not> is_eye (SerialOpen q n m)"
  "\<not> is_eye (Sleep k)"
  by (simp_all add: is_eye_def)

lemma eye_count_update [simp]: "eye_count (update_dot_and_send s x y) = eye_count s + 1"
  by (simp add: eye_count_def update_dot_and_send_gaze move_eye_def send_trace)

lemma on_left_press_fields [simp]:
  "dragging (on_left_press s x y)"
  "last_send_time (on_left_press s x y) = last_send_time s"
  "send_interval (on_left_press s x y) = send_interval s"
  "eye_count (on_left_press s x y) = eye_count s + 1"
  by (simp_all add: on_left_press_def eye_count_def update_dot_and_send_gaze move_eye_def send_trace)

lemma on_drag_fields [simp]:
  "dragging (on_drag s now x y) = dragging s"
  "send_interval (on_drag s now x y) = send_interval s"
  "last_send_time (on_drag s now x y)
     = (if dragging s \<and> send_interval s \<le> now - last_send_time s then now else last_send_time s)"
  "eye_count (on_drag s now x y)
     = (if dragging s \<and> send_interval s \<le> now - last_send_time s then eye_count s + 1
        else eye_count s)"
  by (simp_all add: on_drag_def eye_count_def update_dot_and_send_gaze move_eye_def send_trace)

lemma connect_eye: "filter is_eye (trace (fst (connect c p outcome))) = filter is_eye (trace c)"
proof (cases outcome)
  case None
  obtain c' r where s: "connect c p None = (c', r)" by (cases "connect c p None") auto
  show ?thesis using connect_success [OF s] unfolding None s by simp
next
  case (Some msg)
  obtain c' r where s: "connect c p (Some msg) = (c', r)" by (cases "connect c p (Some msg)") auto
  show ?thesis using connect_failure [OF s] unfolding Some s by simp
qed

lemma other_handlers_fields [simp]:
  "last_send_time (on_left_release s) = last_send_time s"
  "send_interval (on_left_release s) = send_interval s"
  "last_send_time (on_right_click s) = last_send_time s"
  "send_interval (on_right_click s) = send_interval s"
  "last_send_time (on_wheel s d n) = last_send_time s"
  "send_interval (on_wheel s d n) = send_interval s"
  "last_send_time (on_connect s p outcome) = last_send_time s"
  "send_interval (on_connect s p outcome) = send_interval s"
  by (simp_all add: on_left_release_def on_right_click_def on_wheel_def Let_def
      on_connect_def split: prod.splits)







lemma init_fields [simp]:
  "last_send_time Interface_init = 0"
  "send_interval Interface_init = 5764607523034235 / 2 ^ 59"
  "\<not> dragging Interface_init" "eye_count Interface_init = 0"
  by (simp_all add: Interface_init_def Communication_init_def eye_count_def interval_value)

lemma session_Cons [simp]:
  "run s (session p ms) = run (on_left_press s (fst p) (snd p)) (map (\<lambda>(t, x, y). Drag t x y) ms)"
  by (simp add: session_def)

section \<open>Claims about the drag session\<close>




text \<open>
  C3. A press enters the dragging state and sends the mapped position at once, but it
  leaves \<open>last_send_time\<close> as it was: after a press in the initial state the last-send time
  is still 0, and a move one millisecond after that press is sent as well.
\<close>

theorem press_keeps_last_send_time:
  "dragging (on_left_press s x y)
   \<and> eye_count (on_left_press s x y) = eye_count s + 1
   \<and> last_send_time (on_left_press s x y) = last_send_time s
   \<and> last_send_time (run Interface_init [LeftPress 200 200]) = 0
   \<and> eye_count (run Interface_init [LeftPress 200 200, Drag (1000 + 1 / 1024) 210 200]) = 2"
  by simp

end
